theory Spec2Isabelle
  imports Main "HOL-Library.Sublist" "HOL-Library.AList_Mapping"
begin

section \<open>Go strings, as byte lists\<close>

text \<open>
  A Go \<^verbatim>\<open>string\<close> is a sequence of bytes; it is modelled as \<^typ>\<open>string\<close> (a list of
  8-bit characters). The functions of package \<^verbatim>\<open>strings\<close> that \<^verbatim>\<open>sln.go\<close> calls are
  written out here with the results the Go library gives.
\<close>

text \<open>\<^verbatim>\<open>strings.HasPrefix(s, prefix)\<close> and \<^verbatim>\<open>strings.HasSuffix(s, suffix)\<close>.\<close>

definition HasPrefix :: "string \<Rightarrow> string \<Rightarrow> bool" where
  "HasPrefix s p = (take (length p) s = p)"

definition HasSuffix :: "string \<Rightarrow> string \<Rightarrow> bool" where
  "HasSuffix s suf = (length suf \<le> length s \<and> drop (length s - length suf) s = suf)"

text \<open>
  \<^verbatim>\<open>strings.Index(s, substr)\<close>: the byte offset of the first occurrence of \<^verbatim>\<open>substr\<close> in
  \<^verbatim>\<open>s\<close>, or \<open>-1\<close> when there is none.
\<close>

fun Index :: "string \<Rightarrow> string \<Rightarrow> int" where
  "Index [] sub = (if sub = [] then 0 else -1)"
| "Index (c # cs) sub =
     (if HasPrefix (c # cs) sub then 0
      else (let i = Index cs sub in if i = -1 then -1 else i + 1))"

text \<open>\<^verbatim>\<open>strings.Contains(s, substr)\<close> is \<^verbatim>\<open>Index(s, substr) >= 0\<close>.\<close>

definition Contains :: "string \<Rightarrow> string \<Rightarrow> bool" where
  "Contains s sub = (Index s sub \<ge> 0)"

text \<open>
  \<^verbatim>\<open>strings.Replace(s, old, new, -1)\<close>: every non-overlapping occurrence of \<^verbatim>\<open>old\<close>, from
  the left, is replaced by \<^verbatim>\<open>new\<close>. Both call sites pass a non-empty constant for
  \<^verbatim>\<open>old\<close>; with an empty \<^verbatim>\<open>old\<close> Go inserts \<^verbatim>\<open>new\<close> around every UTF-8 sequence,
  which is not needed here and is left as the identity.
\<close>

function Replace :: "string \<Rightarrow> string \<Rightarrow> string \<Rightarrow> string" where
  "Replace s old new =
     (if old = [] \<or> s = [] then s
      else if HasPrefix s old then new @ Replace (drop (length old) s) old new
      else hd s # Replace (tl s) old new)"
  by pat_completeness auto
termination
  by (relation "measure (\<lambda>(s, old, new). length s)") auto

declare Replace.simps [simp del]

text \<open>
  \<^verbatim>\<open>strings.Split(s, sep)\<close> for a non-empty separator: the pieces between successive
  occurrences of \<^verbatim>\<open>sep\<close>; a string without the separator (also the empty string) gives
  one piece. \<^verbatim>\<open>preappend\<close> is the only caller, with \<^verbatim>\<open>";"\<close>; the empty separator (Go
  then explodes the string into UTF-8 sequences) does not occur and gives the single
  piece \<^verbatim>\<open>s\<close> here.
\<close>

function Split :: "string \<Rightarrow> string \<Rightarrow> string list" where
  "Split s sep =
     (if sep = [] \<or> s = [] then [s]
      else if HasPrefix s sep then [] # Split (drop (length sep) s) sep
      else (case Split (tl s) sep of
              [] \<Rightarrow> [[hd s]]
            | p # ps \<Rightarrow> (hd s # p) # ps))"
  by pat_completeness auto
termination
  by (relation "measure (\<lambda>(s, sep). length s)") auto

declare Split.simps [simp del]

text \<open>
  \<^verbatim>\<open>strings.TrimSpace(s)\<close> removes leading and trailing white space as Unicode defines
  it (\<^verbatim>\<open>unicode.IsSpace\<close>). On the bytes of a string these are the UTF-8 encodings of
  U+0009..U+000D, U+0020, U+0085, U+00A0, U+1680, U+2000..U+200A, U+2028, U+2029,
  U+202F, U+205F and U+3000. Go decodes one rune at each end; an encoding of a space
  rune is a prefix (suffix) of the bytes exactly when the first (last) rune decodes to
  that rune, since no encoding is a prefix or suffix of another.
\<close>

definition space_encodings :: "string list" where
  "space_encodings =
     [[CHR 0x09], [CHR 0x0A], [CHR 0x0B], [CHR 0x0C], [CHR 0x0D], [CHR 0x20],
      [CHR 0xC2, CHR 0x85], [CHR 0xC2, CHR 0xA0],
      [CHR 0xE1, CHR 0x9A, CHR 0x80],
      [CHR 0xE2, CHR 0x80, CHR 0x80], [CHR 0xE2, CHR 0x80, CHR 0x81],
      [CHR 0xE2, CHR 0x80, CHR 0x82], [CHR 0xE2, CHR 0x80, CHR 0x83],
      [CHR 0xE2, CHR 0x80, CHR 0x84], [CHR 0xE2, CHR 0x80, CHR 0x85],
      [CHR 0xE2, CHR 0x80, CHR 0x86], [CHR 0xE2, CHR 0x80, CHR 0x87],
      [CHR 0xE2, CHR 0x80, CHR 0x88], [CHR 0xE2, CHR 0x80, CHR 0x89],
      [CHR 0xE2, CHR 0x80, CHR 0x8A],
      [CHR 0xE2, CHR 0x80, CHR 0xA8], [CHR 0xE2, CHR 0x80, CHR 0xA9],
      [CHR 0xE2, CHR 0x80, CHR 0xAF], [CHR 0xE2, CHR 0x81, CHR 0x9F],
      [CHR 0xE3, CHR 0x80, CHR 0x80]]"

function TrimLeftSpace :: "string \<Rightarrow> string" where
  "TrimLeftSpace s =
     (case find (\<lambda>e. HasPrefix s e) space_encodings of
        None \<Rightarrow> s
      | Some e \<Rightarrow> if e = [] then s else TrimLeftSpace (drop (length e) s))"
  by pat_completeness auto
termination
proof (relation "measure length")
  fix s :: string and e :: string
  assume "find (\<lambda>e. HasPrefix s e) space_encodings = Some e" and "e \<noteq> []"
  then have "HasPrefix s e" by (auto simp: find_Some_iff)
  with \<open>e \<noteq> []\<close> have "s \<noteq> []" by (auto simp: HasPrefix_def)
  with \<open>e \<noteq> []\<close> show "(drop (length e) s, s) \<in> measure length" by simp
qed simp

declare TrimLeftSpace.simps [simp del]

function TrimRightSpace :: "string \<Rightarrow> string" where
  "TrimRightSpace s =
     (case find (\<lambda>e. HasSuffix s e) space_encodings of
        None \<Rightarrow> s
      | Some e \<Rightarrow> if e = [] then s else TrimRightSpace (take (length s - length e) s))"
  by pat_completeness auto
termination
proof (relation "measure length")
  fix s :: string and e :: string
  assume "find (\<lambda>e. HasSuffix s e) space_encodings = Some e" and "e \<noteq> []"
  then have "HasSuffix s e" by (auto simp: find_Some_iff)
  with \<open>e \<noteq> []\<close> have "s \<noteq> []" by (auto simp: HasSuffix_def)
  with \<open>e \<noteq> []\<close> show "(take (length s - length e) s, s) \<in> measure length" by simp
qed simp

declare TrimRightSpace.simps [simp del]

definition TrimSpace :: "string \<Rightarrow> string" where
  "TrimSpace s = TrimRightSpace (TrimLeftSpace s)"

section \<open>Go regular expressions\<close>

text \<open>
  Package \<^verbatim>\<open>regexp\<close> matches leftmost-first: the match begins as early as possible,
  and among the matches that begin there it is the one a backtracking matcher finds
  first (a greedy repetition tries more before fewer, a lazy one fewer before more, an
  alternation its left branch before its right). The two expressions of \<^verbatim>\<open>sln.go\<close>
  repeat single-character classes only, which is what the syntax below covers.
  Matching is on bytes: every literal of the two expressions is ASCII, so a match can
  neither begin nor end inside a UTF-8 sequence, and a class that excludes one ASCII
  character accepts every byte of a longer sequence as it accepts the rune.
\<close>

datatype cclass =
    CharIs char      \<comment> \<open>the character itself\<close>
  | CharNot char     \<comment> \<open>\<^verbatim>\<open>[^c]\<close>, which also accepts a newline\<close>
  | Space            \<comment> \<open>\<^verbatim>\<open>\s\<close>, that is \<^verbatim>\<open>[\t\n\f\r ]\<close>\<close>
  | AnyNotNL         \<comment> \<open>\<^verbatim>\<open>.\<close>, any character but a newline\<close>

fun in_class :: "cclass \<Rightarrow> char \<Rightarrow> bool" where
  "in_class (CharIs c) x = (x = c)"
| "in_class (CharNot c) x = (x \<noteq> c)"
| "in_class Space x = (x \<in> {CHR 0x09, CHR 0x0A, CHR 0x0C, CHR 0x0D, CHR 0x20})"
| "in_class AnyNotNL x = (x \<noteq> CHR 0x0A)"

datatype re =
    Lit string               \<comment> \<open>a run of literal characters\<close>
  | Star cclass              \<comment> \<open>\<^verbatim>\<open>x*\<close>\<close>
  | Plus cclass              \<comment> \<open>\<^verbatim>\<open>x+\<close>\<close>
  | PlusLazy cclass          \<comment> \<open>\<^verbatim>\<open>x+?\<close>\<close>
  | Quest cclass             \<comment> \<open>\<^verbatim>\<open>x?\<close>\<close>
  | Group "re list"          \<comment> \<open>\<^verbatim>\<open>(...)\<close>, capturing\<close>
  | Alt "re list" "re list"  \<comment> \<open>\<^verbatim>\<open>(?:a|b)\<close>\<close>
  | EndText                  \<comment> \<open>\<^verbatim>\<open>$\<close> without the multi-line flag: the end of the text\<close>
  | GroupEnd string          \<comment> \<open>internal: closes the group opened at this input\<close>

text \<open>
  \<open>backtrack rs s caps\<close> matches the sequence \<open>rs\<close> at the start of \<open>s\<close> and returns
  the captured groups with the input left after the match, for the first match in
  backtracking order.
\<close>

function backtrack :: "re list \<Rightarrow> string \<Rightarrow> string list \<Rightarrow> (string list \<times> string) option" where
  "backtrack [] s caps = Some (caps, s)"
| "backtrack (Lit l # rs) s caps =
     (if HasPrefix s l then backtrack rs (drop (length l) s) caps else None)"
| "backtrack (Star c # rs) s caps =
     (case s of
        [] \<Rightarrow> backtrack rs s caps
      | x # xs \<Rightarrow>
          if in_class c x then
            (case backtrack (Star c # rs) xs caps of
               Some r \<Rightarrow> Some r
             | None \<Rightarrow> backtrack rs s caps)
          else backtrack rs s caps)"
| "backtrack (Plus c # rs) s caps =
     (case s of
        [] \<Rightarrow> None
      | x # xs \<Rightarrow> if in_class c x then backtrack (Star c # rs) xs caps else None)"
| "backtrack (PlusLazy c # rs) s caps =
     (case s of
        [] \<Rightarrow> None
      | x # xs \<Rightarrow>
          if in_class c x then
            (case backtrack rs xs caps of
               Some r \<Rightarrow> Some r
             | None \<Rightarrow> backtrack (PlusLazy c # rs) xs caps)
          else None)"
| "backtrack (Quest c # rs) s caps =
     (case s of
        [] \<Rightarrow> backtrack rs s caps
      | x # xs \<Rightarrow>
          if in_class c x then
            (case backtrack rs xs caps of
               Some r \<Rightarrow> Some r
             | None \<Rightarrow> backtrack rs s caps)
          else backtrack rs s caps)"
| "backtrack (Group body # rs) s caps = backtrack (body @ GroupEnd s # rs) s caps"
| "backtrack (GroupEnd s0 # rs) s caps =
     backtrack rs s (caps @ [take (length s0 - length s) s0])"
| "backtrack (Alt a b # rs) s caps =
     (case backtrack (a @ rs) s caps of
        Some r \<Rightarrow> Some r
      | None \<Rightarrow> backtrack (b @ rs) s caps)"
| "backtrack (EndText # rs) s caps = (if s = [] then backtrack rs s caps else None)"
  by pat_completeness auto
termination
  by (relation "measures [\<lambda>(rs, s, caps). size_list size rs, \<lambda>(rs, s, caps). length s]") auto

text \<open>
  The leftmost match in \<open>s\<close>: the matched text followed by the groups (the slice
  \<^verbatim>\<open>match\<close> of the source, \<^verbatim>\<open>match[0]\<close> being the whole match), and the input after it.
\<close>

fun leftmost :: "re list \<Rightarrow> string \<Rightarrow> (string list \<times> string) option" where
  "leftmost rs [] =
     (case backtrack rs [] [] of
        None \<Rightarrow> None
      | Some (caps, rest) \<Rightarrow> Some ([] # caps, rest))"
| "leftmost rs (c # cs) =
     (case backtrack rs (c # cs) [] of
        None \<Rightarrow> leftmost rs cs
      | Some (caps, rest) \<Rightarrow> Some (take (length (c # cs) - length rest) (c # cs) # caps, rest))"

text \<open>
  \<^verbatim>\<open>re.FindAllStringSubmatch(s, -1)\<close>: the successive non-overlapping matches, each
  search starting where the previous match ended. Both expressions begin with a
  literal, so no match is empty; the scan stops at an empty match (Go would step over
  one character there).
\<close>

function FindAllStringSubmatch :: "re list \<Rightarrow> string \<Rightarrow> string list list" where
  "FindAllStringSubmatch rs s =
     (case leftmost rs s of
        None \<Rightarrow> []
      | Some (mt, rest) \<Rightarrow>
          if length rest < length s then mt # FindAllStringSubmatch rs rest else [mt])"
  by pat_completeness auto
termination
  by (relation "measure (\<lambda>(rs, s). length s)") auto

declare FindAllStringSubmatch.simps [simp del]

text \<open>
  The expression of \<^verbatim>\<open>parseProjectReferences\<close>:
  \<^verbatim>\<open>Project\("\{[^}]+\}"\)\s*=\s*"[^"]+",\s*"([^"]+)",\s*"\{([^}]+)\}"\<close>
\<close>

definition project_re :: "re list" where
  \<open>project_re =
     [Lit ''Project("{'', Plus (CharNot CHR ''}''), Lit ''}")'',
      Star Space, Lit ''='', Star Space,
      Lit [CHR 0x22], Plus (CharNot (CHR 0x22)), Lit [CHR 0x22, CHR '',''], Star Space,
      Lit [CHR 0x22], Group [Plus (CharNot (CHR 0x22))], Lit [CHR 0x22, CHR '',''], Star Space,
      Lit [CHR 0x22, CHR ''{''], Group [Plus (CharNot CHR ''}'')], Lit [CHR ''}'', CHR 0x22]]\<close>

text \<open>
  The expression of \<^verbatim>\<open>parseConfigurationMappings\<close>:
  \<^verbatim>\<open>\{([^}]+)\}\.([^.]+)\.(?:ActiveCfg|Build\.0)\s*=\s*(.+?)(?:\r?\n|$)\<close>
\<close>

definition mapping_re :: "re list" where
  "mapping_re =
     [Lit ''{'', Group [Plus (CharNot CHR ''}'')], Lit ''}.'',
      Group [Plus (CharNot CHR ''.'')], Lit ''.'',
      Alt [Lit ''ActiveCfg''] [Lit ''Build.0''],
      Star Space, Lit ''='', Star Space,
      Group [PlusLazy AnyNotNL],
      Alt [Quest (CharIs (CHR 0x0D)), Lit [CHR 0x0A]] [EndText]]"

section \<open>The data of \<^verbatim>\<open>sln.go\<close>\<close>

text \<open>
  The error values: the three that \<^verbatim>\<open>sln.go\<close> creates itself, and the errors handed
  up from the operating system and from the project loader.
\<close>

datatype error =
    ErrNoProjectFiles              \<comment> \<open>\<^verbatim>\<open>parseProjectReferences\<close>: no project file found\<close>
  | ErrConfigSectionFormat         \<comment> \<open>\<^verbatim>\<open>parseConfigurationMappings\<close>: section not closed\<close>
  | ErrProjectNotInSolution string \<comment> \<open>\<^verbatim>\<open>GetProjectConfig\<close>: path not in the solution\<close>
  | ErrOther string                \<comment> \<open>an error of a collaborator\<close>

text \<open>
  Modelled from the spec: type \<^verbatim>\<open>Project\<close> is declared in another file of the
  package. \<^verbatim>\<open>sln.go\<close> reads its fields \<^verbatim>\<open>ProjectPath\<close> and \<^verbatim>\<open>ProjectDir\<close> and calls
  its methods \<^verbatim>\<open>FindSourceFiles()\<close> (a finite, restartable sequence of file paths) and
  \<^verbatim>\<open>FindConfig(name)\<close> (the raw include list and the raw define list of a
  configuration, or an error); the two methods are fields here, so that every theorem
  holds for whatever they return.
\<close>

record Project =
  ProjectPath :: string
  ProjectDir :: string
  FindSourceFiles :: "string list"
  FindConfig :: "string \<Rightarrow> error + (string \<times> string)"

text \<open>
  Modelled from the spec: type \<^verbatim>\<open>CompileCommand\<close> is declared in another file of the
  package; \<^verbatim>\<open>sln.go\<close> assigns its fields \<^verbatim>\<open>Dir\<close>, \<^verbatim>\<open>File\<close> and \<^verbatim>\<open>Cmd\<close>.
\<close>

record CompileCommand =
  Dir :: string
  File :: string
  Cmd :: string

record ProjectConfigMapping =
  ProjectGUID :: string
  SolutionConfig :: string
  ProjectConfig :: string
  ShouldBuild :: bool

record Sln =
  SolutionDir :: string
  ProjectList :: "Project list"
  ProjectGUIDs :: "(string, string) mapping"
  ConfigMappings :: "ProjectConfigMapping list"

text \<open>
  What \<^verbatim>\<open>sln.go\<close> calls outside itself is gathered in one record. \<^verbatim>\<open>filepath.Abs\<close>,
  \<^verbatim>\<open>filepath.Dir\<close> and \<^verbatim>\<open>filepath.Join\<close> depend on the platform and on the working
  directory; \<open>ReadFile\<close> stands for \<^verbatim>\<open>os.Open\<close> followed by \<^verbatim>\<open>ioutil.ReadAll\<close>.
\<close>

text \<open>
  Modelled from the spec: \<^verbatim>\<open>NewProject\<close> (the project loader), \<^verbatim>\<open>RemoveBadDefinition\<close>
  and \<^verbatim>\<open>RemoveBadInclude\<close> (the two sanitizers, pure functions from a
  semicolon-joined string to a semicolon-joined string) are functions of the package
  declared in other files; they are parameters here, and every theorem holds for
  whatever they compute.
\<close>

record env =
  filepath_Abs :: "string \<Rightarrow> string \<times> error option"
  filepath_Dir :: "string \<Rightarrow> string"
  filepath_Join :: "string \<Rightarrow> string \<Rightarrow> string"
  ReadFile :: "string \<Rightarrow> error + string"
  NewProject :: "string \<Rightarrow> error + Project"
  RemoveBadDefinition :: "string \<Rightarrow> string"
  RemoveBadInclude :: "string \<Rightarrow> string"

text \<open>
  A Go \<^verbatim>\<open>map\<close> is a finite mapping (\<open>len(m) == 0\<close> is \<^const>\<open>Mapping.is_empty\<close>);
  \<^verbatim>\<open>range\<close> over it visits every key once, in an order the language leaves
  unspecified and the runtime randomises. Each function that ranges over
  \<^verbatim>\<open>ProjectGUIDs\<close> therefore takes the order of that visit as an argument;
  \<open>range_order m ks\<close> says that \<open>ks\<close> is such an order for the map \<open>m\<close>.
\<close>

definition range_order :: "(string, string) mapping \<Rightarrow> string list \<Rightarrow> bool" where
  "range_order m ks = (distinct ks \<and> set ks = Mapping.keys m)"

section \<open>Parsing the solution file\<close>

subsection \<open>\<^verbatim>\<open>parseProjectReferences\<close>\<close>

fun reference_loop :: "(string, string) mapping \<Rightarrow> string list list \<Rightarrow> (string, string) mapping" where
  "reference_loop guids [] = guids"
| "reference_loop guids (match # matches) =
     reference_loop
       (if length match \<ge> 3 \<and> HasSuffix (match ! 1) ''.vcxproj''
        then (let projectPath = Replace (match ! 1) [CHR 0x5C] ''/'';
                  projectGUID = match ! 2
              in Mapping.update projectPath projectGUID guids)
        else guids)
       matches"

definition parseProjectReferences :: "Sln \<Rightarrow> string \<Rightarrow> Sln \<times> error option" where
  "parseProjectReferences sln content =
     (let matches = FindAllStringSubmatch project_re content;
          sln' = sln\<lparr>ProjectGUIDs := reference_loop (ProjectGUIDs sln) matches\<rparr>
      in if Mapping.is_empty (ProjectGUIDs sln') then (sln', Some ErrNoProjectFiles)
         else (sln', None))"

subsection \<open>\<^verbatim>\<open>parseConfigurationMappings\<close>\<close>

text \<open>
  The inner loop over the existing rows: the first row with the same project GUID and
  solution configuration is updated in place, and the loop reports whether it found
  one.
\<close>

fun update_existing ::
  "ProjectConfigMapping list \<Rightarrow> string \<Rightarrow> string \<Rightarrow> string \<Rightarrow> bool
     \<Rightarrow> ProjectConfigMapping list \<times> bool" where
  "update_existing [] projectGUID solutionConfig projectConfig shouldBuild = ([], False)"
| "update_existing (mapping # rest) projectGUID solutionConfig projectConfig shouldBuild =
     (if ProjectGUID mapping = projectGUID \<and> SolutionConfig mapping = solutionConfig
      then (mapping\<lparr>ShouldBuild := (if shouldBuild then True else ShouldBuild mapping),
                     ProjectConfig := (if ProjectConfig mapping = [] then projectConfig
                                       else ProjectConfig mapping)\<rparr> # rest,
            True)
      else (let (rest', found) =
                  update_existing rest projectGUID solutionConfig projectConfig shouldBuild
            in (mapping # rest', found)))"

definition merge_match :: "ProjectConfigMapping list \<Rightarrow> string list \<Rightarrow> ProjectConfigMapping list" where
  "merge_match mappings match =
     (if length match \<ge> 4 then
        (let projectGUID = match ! 1;
             solutionConfig = match ! 2;
             projectConfig = TrimSpace (match ! 3);
             shouldBuild = Contains (match ! 0) ''Build.0'';
             (mappings', found) =
               update_existing mappings projectGUID solutionConfig projectConfig shouldBuild
         in if \<not> found
            then mappings' @ [\<lparr>ProjectGUID = projectGUID, SolutionConfig = solutionConfig,
                               ProjectConfig = projectConfig, ShouldBuild = shouldBuild\<rparr>]
            else mappings')
      else mappings)"

fun mapping_loop :: "ProjectConfigMapping list \<Rightarrow> string list list \<Rightarrow> ProjectConfigMapping list" where
  "mapping_loop mappings [] = mappings"
| "mapping_loop mappings (match # matches) = mapping_loop (merge_match mappings match) matches"

definition section_start :: string where
  "section_start = ''GlobalSection(ProjectConfigurationPlatforms)''"

definition section_end :: string where
  "section_end = ''EndGlobalSection''"

definition parseConfigurationMappings :: "Sln \<Rightarrow> string \<Rightarrow> Sln \<times> error option" where
  "parseConfigurationMappings sln content =
     (let configSectionStart = Index content section_start in
      if configSectionStart = -1 then (sln, None)
      else
        (let configSectionEnd = Index (drop (nat configSectionStart) content) section_end in
         if configSectionEnd = -1 then (sln, Some ErrConfigSectionFormat)
         else
           (let configSection =
                  take (nat configSectionEnd) (drop (nat configSectionStart) content);
                matches = FindAllStringSubmatch mapping_re configSection
            in (sln\<lparr>ConfigMappings := mapping_loop (ConfigMappings sln) matches\<rparr>, None))))"

subsection \<open>\<^verbatim>\<open>parseSolutionFile\<close> and \<^verbatim>\<open>NewSln\<close>\<close>

definition parseSolutionFile :: "env \<Rightarrow> Sln \<Rightarrow> string \<Rightarrow> Sln \<times> error option" where
  "parseSolutionFile e sln path =
     (case ReadFile e path of
        Inl err \<Rightarrow> (sln, Some err)
      | Inr content \<Rightarrow>
          (case parseProjectReferences sln content of
             (sln', Some err) \<Rightarrow> (sln', Some err)
           | (sln', None) \<Rightarrow> parseConfigurationMappings sln' content))"

text \<open>
  The loading loop of \<^verbatim>\<open>NewSln\<close>, over the keys of \<^verbatim>\<open>ProjectGUIDs\<close> in the order of
  this run's \<^verbatim>\<open>range\<close>. It returns at the first project that fails to load, with the
  error and with the value built so far.
\<close>

fun load_projects :: "env \<Rightarrow> Sln \<Rightarrow> string list \<Rightarrow> Sln \<times> error option" where
  "load_projects e sln [] = (sln, None)"
| "load_projects e sln (projectPath # paths) =
     (case NewProject e (filepath_Join e (SolutionDir sln) projectPath) of
        Inl err \<Rightarrow> (sln, Some err)
      | Inr pro \<Rightarrow> load_projects e (sln\<lparr>ProjectList := ProjectList sln @ [pro]\<rparr>) paths)"

text \<open>
  \<^verbatim>\<open>NewSln\<close> returns the pair \<^verbatim>\<open>(sln, err)\<close> as the source does. \<open>keys\<close> gives the
  order in which the loading loop ranges over the reference table.
\<close>

definition NewSln ::
  "env \<Rightarrow> ((string, string) mapping \<Rightarrow> string list) \<Rightarrow> string \<Rightarrow> Sln \<times> error option" where
  "NewSln e keys path =
     (let (absPath, err) = filepath_Abs e path;
          sln = \<lparr>SolutionDir = filepath_Dir e absPath, ProjectList = [],
                 ProjectGUIDs = Mapping.empty, ConfigMappings = []\<rparr>
      in case err of
           Some er \<Rightarrow> (sln, Some er)
         | None \<Rightarrow>
             (case parseSolutionFile e sln path of
                (sln', Some er) \<Rightarrow> (sln', Some er)
              | (sln', None) \<Rightarrow> load_projects e sln' (keys (ProjectGUIDs sln'))))"

section \<open>Configuration queries\<close>

fun mapping_lookup :: "ProjectConfigMapping list \<Rightarrow> string \<Rightarrow> string \<Rightarrow> string" where
  "mapping_lookup [] projectGUID solutionConfig = solutionConfig"
| "mapping_lookup (mapping # rest) projectGUID solutionConfig =
     (if ProjectGUID mapping = projectGUID \<and> SolutionConfig mapping = solutionConfig
      then ProjectConfig mapping
      else mapping_lookup rest projectGUID solutionConfig)"

definition GetProjectConfig :: "Sln \<Rightarrow> string \<Rightarrow> string \<Rightarrow> error + string" where
  "GetProjectConfig sln projectPath solutionConfig =
     (case Mapping.lookup (ProjectGUIDs sln) projectPath of
        None \<Rightarrow> Inl (ErrProjectNotInSolution projectPath)
      | Some projectGUID \<Rightarrow> Inr (mapping_lookup (ConfigMappings sln) projectGUID solutionConfig))"

text \<open>
  The \<^verbatim>\<open>range\<close> loop of \<^verbatim>\<open>GetProjectConfigByProject\<close>: the first key, in the order of
  the visit, whose path joined to the solution directory is the project's path;
  \<^verbatim>\<open>projectPath\<close> keeps its zero value, the empty string, when there is none.
\<close>

fun find_project_path :: "env \<Rightarrow> Sln \<Rightarrow> Project \<Rightarrow> string list \<Rightarrow> string" where
  "find_project_path e sln pro [] = []"
| "find_project_path e sln pro (path # paths) =
     (let absPath = filepath_Join e (SolutionDir sln) path
      in if absPath = ProjectPath pro then path else find_project_path e sln pro paths)"

definition GetProjectConfigByProject ::
  "env \<Rightarrow> string list \<Rightarrow> Sln \<Rightarrow> Project \<Rightarrow> string \<Rightarrow> error + string" where
  "GetProjectConfigByProject e order sln pro solutionConfig =
     (let projectPath = find_project_path e sln pro order
      in if projectPath = [] then Inr solutionConfig
         else GetProjectConfig sln projectPath solutionConfig)"

section \<open>Compile commands\<close>

fun preappend_loop :: "string list \<Rightarrow> string \<Rightarrow> string \<Rightarrow> string" where
  "preappend_loop [] app output = output"
| "preappend_loop (v # defList) app output =
     preappend_loop defList app (output @ (app @ v @ '' ''))"

definition preappend :: "string \<Rightarrow> string \<Rightarrow> string" where
  "preappend sepedString app = preappend_loop (Split sepedString '';'') app []"

text \<open>The loop over the source files of one project; it stops at the first error.\<close>

fun file_loop ::
  "env \<Rightarrow> Sln \<Rightarrow> Project \<Rightarrow> string \<Rightarrow> string list \<Rightarrow> CompileCommand list
     \<Rightarrow> CompileCommand list \<times> error option" where
  "file_loop e sln pro projectConfig [] cmdList = (cmdList, None)"
| "file_loop e sln pro projectConfig (f # files) cmdList =
     (case FindConfig pro projectConfig of
        Inl err \<Rightarrow> (cmdList, Some err)
      | Inr (inc0, def0) \<Rightarrow>
          (let inc1 = Replace inc0 ''$(SolutionDir)'' (SolutionDir sln);
               def = preappend (RemoveBadDefinition e def0) ''-D'';
               inc = preappend (RemoveBadInclude e inc1) ''-I'';
               cmd = ''clang-cl.exe '' @ def @ '' '' @ inc @ '' -c '' @ f
           in file_loop e sln pro projectConfig files
                (cmdList @ [\<lparr>Dir = ProjectDir pro, File = f, Cmd = cmd\<rparr>])))"

text \<open>
  The loop over the projects. \<open>orders i\<close> is the order in which the \<open>i\<close>-th call of
  \<^verbatim>\<open>GetProjectConfigByProject\<close> ranges over the reference table. When that call
  fails the source writes a warning to the standard error stream and goes on with the
  requested configuration; the warning is not part of the returned value.
\<close>

fun project_loop ::
  "env \<Rightarrow> (nat \<Rightarrow> string list) \<Rightarrow> Sln \<Rightarrow> string \<Rightarrow> nat \<Rightarrow> Project list
     \<Rightarrow> CompileCommand list \<Rightarrow> CompileCommand list \<times> error option" where
  "project_loop e orders sln conf i [] cmdList = (cmdList, None)"
| "project_loop e orders sln conf i (pro # pros) cmdList =
     (let projectConfig =
            (case GetProjectConfigByProject e (orders i) sln pro conf of
               Inl err \<Rightarrow> conf
             | Inr c \<Rightarrow> c)
      in case file_loop e sln pro projectConfig (FindSourceFiles pro) cmdList of
           (cmdList', Some err) \<Rightarrow> (cmdList', Some err)
         | (cmdList', None) \<Rightarrow> project_loop e orders sln conf (Suc i) pros cmdList')"

definition CompileCommandsJson ::
  "env \<Rightarrow> (nat \<Rightarrow> string list) \<Rightarrow> Sln \<Rightarrow> string \<Rightarrow> CompileCommand list \<times> error option" where
  "CompileCommandsJson e orders sln conf = project_loop e orders sln conf 0 (ProjectList sln) []"

section \<open>Paths on a Unix system, for the worked examples\<close>

text \<open>
  \<^verbatim>\<open>filepath.Clean\<close>, \<^verbatim>\<open>filepath.Join\<close> (of two elements) and \<^verbatim>\<open>filepath.Dir\<close> as package
  \<^verbatim>\<open>path/filepath\<close> computes them where the separator is \<^verbatim>\<open>/\<close>: \<^verbatim>\<open>Clean\<close> drops
  empty and \<^verbatim>\<open>.\<close> elements, cancels an inner \<^verbatim>\<open>..\<close> against the element before it,
  drops a \<^verbatim>\<open>..\<close> at the root, and gives \<^verbatim>\<open>.\<close> for an empty result. The general
  theorems below hold for every \<open>filepath_Join\<close>; these definitions make the examples
  concrete.
\<close>

fun clean_step :: "bool \<Rightarrow> string list \<Rightarrow> string \<Rightarrow> string list" where
  "clean_step rooted out c =
     (if c = [] \<or> c = ''.'' then out
      else if c = ''..'' then
        (if out \<noteq> [] \<and> last out \<noteq> ''..'' then butlast out
         else if rooted then out
         else out @ [''..''])
      else out @ [c])"

fun join_elements :: "string list \<Rightarrow> string" where
  "join_elements [] = []"
| "join_elements [x] = x"
| "join_elements (x # y # ys) = x @ ''/'' @ join_elements (y # ys)"

definition unix_Clean :: "string \<Rightarrow> string" where
  "unix_Clean path =
     (if path = [] then ''.''
      else
        (let rooted = (hd path = CHR ''/'');
             out = foldl (clean_step rooted) [] (Split path ''/'');
             res = (if rooted then ''/'' else []) @ join_elements out
         in if res = [] then ''.'' else res))"

definition unix_Join :: "string \<Rightarrow> string \<Rightarrow> string" where
  "unix_Join a b =
     (if a \<noteq> [] then unix_Clean (a @ ''/'' @ b)
      else if b \<noteq> [] then unix_Clean b
      else [])"

definition unix_Dir :: "string \<Rightarrow> string" where
  "unix_Dir path = unix_Clean (rev (dropWhile (\<lambda>c. c \<noteq> CHR ''/'') (rev path)))"

section \<open>Notions used to state the properties\<close>

text \<open>The key of a configuration-mapping row.\<close>

definition mapping_key :: "ProjectConfigMapping \<Rightarrow> string \<times> string" where
  "mapping_key m = (ProjectGUID m, SolutionConfig m)"

text \<open>The first row with a given key, as both linear scans of the source find it.\<close>

definition row_of :: "string \<times> string \<Rightarrow> ProjectConfigMapping list \<Rightarrow> ProjectConfigMapping option" where
  "row_of k ms = find (\<lambda>m. mapping_key m = k) ms"

text \<open>
  The slice \<^verbatim>\<open>matches\<close> that the loop of \<^verbatim>\<open>parseConfigurationMappings\<close> ranges over:
  the raw mapping rows of the configuration section, none when a marker is missing.
\<close>

definition mapping_matches :: "string \<Rightarrow> string list list" where
  "mapping_matches content =
     (let configSectionStart = Index content section_start in
      if configSectionStart = -1 then []
      else
        (let configSectionEnd = Index (drop (nat configSectionStart) content) section_end in
         if configSectionEnd = -1 then []
         else FindAllStringSubmatch mapping_re
                (take (nat configSectionEnd) (drop (nat configSectionStart) content))))"

text \<open>What the update branch of the merge does to the row it finds.\<close>

definition merged :: "string \<Rightarrow> bool \<Rightarrow> ProjectConfigMapping \<Rightarrow> ProjectConfigMapping" where
  "merged projectConfig shouldBuild =
     (\<lambda>m. m\<lparr>ShouldBuild := (ShouldBuild m \<or> shouldBuild),
            ProjectConfig := (if ProjectConfig m = [] then projectConfig else ProjectConfig m)\<rparr>)"

text \<open>
  The configuration a project is generated with, and the shape of one entry of the
  output for that project.
\<close>

definition resolved :: "env \<Rightarrow> string list \<Rightarrow> Sln \<Rightarrow> Project \<Rightarrow> string \<Rightarrow> string" where
  "resolved e order sln pro conf =
     (case GetProjectConfigByProject e order sln pro conf of Inl err \<Rightarrow> conf | Inr c \<Rightarrow> c)"

definition composed_entry :: "env \<Rightarrow> Sln \<Rightarrow> Project \<Rightarrow> string \<Rightarrow> CompileCommand \<Rightarrow> bool" where
  "composed_entry e sln pro projectConfig c =
     (\<exists>inc def.
        File c \<in> set (FindSourceFiles pro) \<and> Dir c = ProjectDir pro \<and>
        FindConfig pro projectConfig = Inr (inc, def) \<and>
        Cmd c =
          ''clang-cl.exe '' @
          concat (map (\<lambda>d. ''-D'' @ d @ '' '') (Split (RemoveBadDefinition e def) '';'')) @
          '' '' @
          concat (map (\<lambda>i. ''-I'' @ i @ '' '')
                    (Split (RemoveBadInclude e (Replace inc ''$(SolutionDir)'' (SolutionDir sln))) '';'')) @
          '' -c '' @ File c)"


section \<open>Worked examples\<close>

subsection \<open>The one-project solution\<close>

text \<open>
  A solution \<^verbatim>\<open>/work/app.sln\<close> with the single reference \<^verbatim>\<open>lib\app.vcxproj\<close>,
  identifier \<^verbatim>\<open>ABCD\<close>, and the row
  \<^verbatim>\<open>{ABCD}.Debug|x64.ActiveCfg = Debug|Win32\<close>. The project has one source file
  \<^verbatim>\<open>main.cpp\<close>, includes \<^verbatim>\<open>inc1;inc2\<close> and defines \<^verbatim>\<open>FOO;BAR\<close>; the sanitizers leave
  both lists as they are.
\<close>

definition app_reference :: string where
  \<open>app_reference =
     ''Project("{8BC9CEB8}") = "app", "lib'' @ [CHR 0x5C] @ ''app.vcxproj", "{ABCD}"''\<close>

definition example_doc :: string where
  "example_doc =
     app_reference @ [CHR 0x0A] @
     ''EndProject'' @ [CHR 0x0A] @
     ''Global'' @ [CHR 0x0A] @
     ''GlobalSection(ProjectConfigurationPlatforms) = postSolution'' @ [CHR 0x0A] @
     ''{ABCD}.Debug|x64.ActiveCfg = Debug|Win32'' @ [CHR 0x0A] @
     ''EndGlobalSection'' @ [CHR 0x0A] @
     ''EndGlobal'' @ [CHR 0x0A]"

definition example_project :: Project where
  "example_project =
     \<lparr>ProjectPath = ''/work/lib/app.vcxproj'', ProjectDir = ''lib'',
      FindSourceFiles = [''main.cpp''],
      FindConfig = (\<lambda>name. if name = ''Debug|Win32'' then Inr (''inc1;inc2'', ''FOO;BAR'')
                            else Inl (ErrOther ''no such configuration''))\<rparr>"

definition example_env :: env where
  "example_env =
     \<lparr>filepath_Abs = (\<lambda>p. (p, None)), filepath_Dir = unix_Dir, filepath_Join = unix_Join,
      ReadFile = (\<lambda>p. if p = ''/work/app.sln'' then Inr example_doc
                       else Inl (ErrOther ''open'')),
      NewProject = (\<lambda>p. if p = ''/work/lib/app.vcxproj'' then Inr example_project
                         else Inl (ErrOther ''load'')),
      RemoveBadDefinition = (\<lambda>s. s), RemoveBadInclude = (\<lambda>s. s)\<rparr>"

definition example_sln :: Sln where
  "example_sln =
     \<lparr>SolutionDir = ''/work'', ProjectList = [example_project],
      ProjectGUIDs = Mapping.update ''lib/app.vcxproj'' ''ABCD'' Mapping.empty,
      ConfigMappings =
        [\<lparr>ProjectGUID = ''ABCD'', SolutionConfig = ''Debug|x64'',
          ProjectConfig = ''Debug|Win32'', ShouldBuild = False\<rparr>]\<rparr>"

definition empty_sln :: Sln where
  "empty_sln =
     \<lparr>SolutionDir = ''/work'', ProjectList = [], ProjectGUIDs = Mapping.empty,
      ConfigMappings = []\<rparr>"

text \<open>The same environment with a project loader that always fails.\<close>

definition failing_env :: env where
  "failing_env = example_env\<lparr>NewProject := (\<lambda>p. Inl (ErrOther ''load''))\<rparr>"

subsection \<open>Two references to one project file\<close>

text \<open>
  A solution that names the same project file twice, as \<^verbatim>\<open>app.vcxproj\<close> and as
  \<^verbatim>\<open>.\app.vcxproj\<close>, under two identifiers that map \<^verbatim>\<open>Debug\<close> to different project
  configurations. Both paths join to \<^verbatim>\<open>/work/app.vcxproj\<close>.
\<close>

definition twin_doc :: string where
  \<open>twin_doc =
     ''Project("{8BC9CEB8}") = "app", "app.vcxproj", "{G1}"'' @ [CHR 0x0A] @
     ''EndProject'' @ [CHR 0x0A] @
     ''Project("{8BC9CEB8}") = "app64", ".'' @ [CHR 0x5C] @ ''app.vcxproj", "{G2}"'' @ [CHR 0x0A] @
     ''EndProject'' @ [CHR 0x0A] @
     ''GlobalSection(ProjectConfigurationPlatforms) = postSolution'' @ [CHR 0x0A] @
     ''{G1}.Debug.ActiveCfg = Debug|Win32'' @ [CHR 0x0A] @
     ''{G2}.Debug.ActiveCfg = Debug|x64'' @ [CHR 0x0A] @
     ''EndGlobalSection'' @ [CHR 0x0A]\<close>

definition twin_project :: Project where
  "twin_project =
     \<lparr>ProjectPath = ''/work/app.vcxproj'', ProjectDir = ''/work'',
      FindSourceFiles = [''main.cpp''],
      FindConfig = (\<lambda>name. if name = ''Debug|Win32'' then Inr (''inc'', ''WIN32'')
                            else if name = ''Debug|x64'' then Inr (''inc'', ''WIN64'')
                            else Inl (ErrOther ''no such configuration''))\<rparr>"

definition twin_env :: env where
  "twin_env =
     \<lparr>filepath_Abs = (\<lambda>p. (p, None)), filepath_Dir = unix_Dir, filepath_Join = unix_Join,
      ReadFile = (\<lambda>p. if p = ''/work/twin.sln'' then Inr twin_doc else Inl (ErrOther ''open'')),
      NewProject = (\<lambda>p. if p = ''/work/app.vcxproj'' then Inr twin_project
                         else Inl (ErrOther ''load'')),
      RemoveBadDefinition = (\<lambda>s. s), RemoveBadInclude = (\<lambda>s. s)\<rparr>"

definition twin_sln :: Sln where
  "twin_sln =
     \<lparr>SolutionDir = ''/work'', ProjectList = [twin_project, twin_project],
      ProjectGUIDs =
        Mapping.update ''./app.vcxproj'' ''G2'' (Mapping.update ''app.vcxproj'' ''G1'' Mapping.empty),
      ConfigMappings =
        [\<lparr>ProjectGUID = ''G1'', SolutionConfig = ''Debug'',
          ProjectConfig = ''Debug|Win32'', ShouldBuild = False\<rparr>,
         \<lparr>ProjectGUID = ''G2'', SolutionConfig = ''Debug'',
          ProjectConfig = ''Debug|x64'', ShouldBuild = False\<rparr>]\<rparr>"

text \<open>A solution with two different projects, for which every registered path joins to its own file.\<close>

definition pair_sln :: Sln where
  "pair_sln =
     \<lparr>SolutionDir = ''/work'', ProjectList = [twin_project, example_project],
      ProjectGUIDs =
        Mapping.update ''lib/app.vcxproj'' ''ABCD'' (Mapping.update ''app.vcxproj'' ''G1'' Mapping.empty),
      ConfigMappings =
        [\<lparr>ProjectGUID = ''G1'', SolutionConfig = ''Debug|x64'',
          ProjectConfig = ''Debug|Win32'', ShouldBuild = False\<rparr>,
         \<lparr>ProjectGUID = ''ABCD'', SolutionConfig = ''Debug|x64'',
          ProjectConfig = ''Debug|Win32'', ShouldBuild = False\<rparr>]\<rparr>"

subsection \<open>Documents for the parser\<close>

text \<open>
  Three references of which one is a \<^verbatim>\<open>.vcxproj\<close> project, a document with a solution
  folder only, the two orders of an active-configuration row and a build row for one
  key, a first row whose value is a vertical tab only (white space for
  \<^verbatim>\<open>strings.TrimSpace\<close>, not for \<^verbatim>\<open>\s\<close>), an active-configuration row whose value
  contains \<^verbatim>\<open>Build.0\<close>, and a configuration section that is never closed.
\<close>

definition folder_reference :: string where
  \<open>folder_reference = ''Project("{2150E333}") = "docs", "docs", "{F001}"''\<close>

definition csproj_reference :: string where
  \<open>csproj_reference = ''Project("{FAE04EC0}") = "tool", "tool/tool.csproj", "{C5C5}"''\<close>

definition mixed_doc :: string where
  "mixed_doc =
     app_reference @ [CHR 0x0A] @ folder_reference @ [CHR 0x0A] @ csproj_reference @ [CHR 0x0A]"

definition folder_doc :: string where
  "folder_doc = folder_reference @ [CHR 0x0A]"

definition active_row :: string where
  "active_row = ''{ABCD}.Debug|x64.ActiveCfg = Debug|x64'' @ [CHR 0x0A]"

definition build_row :: string where
  "build_row = ''{ABCD}.Debug|x64.Build.0 = Release|x64'' @ [CHR 0x0A]"

definition active_first_doc :: string where
  "active_first_doc =
     section_start @ '' = postSolution'' @ [CHR 0x0A] @ active_row @ build_row @ section_end"

definition build_first_doc :: string where
  "build_first_doc =
     section_start @ '' = postSolution'' @ [CHR 0x0A] @ build_row @ active_row @ section_end"

definition blank_row :: string where
  "blank_row = ''{ABCD}.Debug|x64.ActiveCfg = '' @ [CHR 0x0B, CHR 0x0A]"

definition blank_first_doc :: string where
  "blank_first_doc =
     section_start @ '' = postSolution'' @ [CHR 0x0A] @ blank_row @ build_row @ section_end"

definition build0_row :: string where
  "build0_row = ''{ABCD}.Debug|x64.ActiveCfg = Build.0|x64'' @ [CHR 0x0A]"

definition build0_doc :: string where
  "build0_doc = section_start @ '' = postSolution'' @ [CHR 0x0A] @ build0_row @ section_end"

definition open_section_rest :: string where
  "open_section_rest = '' = postSolution'' @ [CHR 0x0A] @ active_row @ ''EndGlobal'' @ [CHR 0x0A]"

section \<open>Properties of the string functions\<close>

text \<open>
  The Go functions agree with the list notions of the library: prefix, suffix, and
  occurrence as a contiguous sublist; \<open>Index\<close> finds the first occurrence.
\<close>

lemma HasPrefix_iff: "HasPrefix s p \<longleftrightarrow> prefix p s"
  unfolding HasPrefix_def prefix_def
  by (metis append_eq_conv_conj append_take_drop_id)

lemma HasSuffix_iff: "HasSuffix s suf \<longleftrightarrow> suffix suf s"
proof
  assume "HasSuffix s suf"
  then have "s = take (length s - length suf) s @ suf"
    unfolding HasSuffix_def by (metis append_take_drop_id)
  then show "suffix suf s" unfolding suffix_def by blast
next
  assume "suffix suf s"
  then obtain zs where "s = zs @ suf" unfolding suffix_def by blast
  then show "HasSuffix s suf" unfolding HasSuffix_def by simp
qed

lemma Index_ge: "Index s sub \<ge> -1"
  by (induction s) (auto simp: Let_def)

lemma Index_absent: "Index s sub = -1 \<longleftrightarrow> \<not> sublist sub s"
proof (induction s)
  case Nil
  then show ?case by simp
next
  case (Cons c cs)
  have ge: "Index cs sub \<ge> -1" by (rule Index_ge)
  show ?case
  proof (cases "HasPrefix (c # cs) sub")
    case True
    then have "prefix sub (c # cs)" by (simp add: HasPrefix_iff)
    then have "sublist sub (c # cs)" by (rule prefix_imp_sublist)
    with True show ?thesis by simp
  next
    case False
    then have np: "\<not> prefix sub (c # cs)" by (simp add: HasPrefix_iff)
    have "sublist sub (c # cs) \<longleftrightarrow> sublist sub cs"
      using np by (simp add: sublist_Cons_right)
    with False Cons ge show ?thesis by (auto simp: Let_def)
  qed
qed

lemma Index_found:
  "Index s sub \<noteq> -1 \<Longrightarrow> HasPrefix (drop (nat (Index s sub)) s) sub"
proof (induction s)
  case Nil
  then show ?case by (auto simp: HasPrefix_def split: if_splits)
next
  case (Cons c cs)
  have ge: "Index cs sub \<ge> -1" by (rule Index_ge)
  show ?case
  proof (cases "HasPrefix (c # cs) sub")
    case True
    then show ?thesis by simp
  next
    case False
    with Cons.prems have ne: "Index cs sub \<noteq> -1" by (auto simp: Let_def split: if_splits)
    with ge have "Index cs sub \<ge> 0" by linarith
    then have "nat (Index cs sub + 1) = Suc (nat (Index cs sub))" by linarith
    with False ne Cons.IH show ?thesis by (simp add: Let_def)
  qed
qed

lemma take_prefix_butlast:
  assumes "sub \<noteq> []" and "pre \<noteq> []" and "take (length sub) (pre @ sub @ post) = sub"
  shows "prefix sub (pre @ butlast sub)"
proof -
  have k: "length sub - length pre < length sub"
    using assms(1,2) by (cases pre; cases sub) auto
  have "take (length sub - length pre) (sub @ post) = take (length sub - length pre) sub"
    using k by simp
  also have "\<dots> = take (length sub - length pre) (butlast sub)"
    using k by (simp add: take_butlast)
  finally have "take (length sub) (pre @ sub @ post) = take (length sub) (pre @ butlast sub)"
    by simp
  with assms(3) have "sub = take (length sub) (pre @ butlast sub)" by simp
  then show ?thesis by (metis take_is_prefix)
qed

lemma Index_first:
  assumes "sub \<noteq> []" and "\<not> sublist sub (pre @ butlast sub)"
  shows "Index (pre @ sub @ post) sub = int (length pre)"
  using assms(2)
proof (induction pre)
  case Nil
  from assms(1) obtain c cs where "sub @ post = c # cs" by (cases sub) auto
  moreover have "HasPrefix (sub @ post) sub" by (simp add: HasPrefix_def)
  ultimately show ?case by simp
next
  case (Cons p ps)
  have np: "\<not> HasPrefix (p # ps @ sub @ post) sub"
  proof
    assume "HasPrefix (p # ps @ sub @ post) sub"
    then have "take (length sub) ((p # ps) @ sub @ post) = sub" by (simp add: HasPrefix_def)
    with assms(1) have "prefix sub ((p # ps) @ butlast sub)"
      by (intro take_prefix_butlast) simp_all
    then have "sublist sub ((p # ps) @ butlast sub)" by (rule prefix_imp_sublist)
    with Cons.prems show False by simp
  qed
  have "\<not> sublist sub (ps @ butlast sub)"
    using Cons.prems by (simp add: sublist_Cons_right)
  then have "Index (ps @ sub @ post) sub = int (length ps)" by (rule Cons.IH)
  with np show ?case by (simp add: Let_def)
qed

lemma sublist_skip:
  assumes "e \<noteq> []" and "hd e \<notin> set a" and "sublist e (a @ b)"
  shows "sublist e b"
  using assms(2,3)
proof (induction a)
  case Nil
  then show ?case by simp
next
  case (Cons x xs)
  from assms(1) obtain h t where e: "e = h # t" by (cases e) auto
  with Cons.prems have "h \<noteq> x" by auto
  then have "\<not> prefix e (x # xs @ b)" using e by simp
  with Cons.prems have "sublist e (xs @ b)" by (simp add: sublist_Cons_right)
  with Cons show ?case by simp
qed

lemma Replace_char:
  "Replace s [c] [d] = map (\<lambda>x. if x = c then d else x) s"
proof (induction s)
  case Nil
  then show ?case by (simp add: Replace.simps)
next
  case (Cons x xs)
  then show ?case by (subst Replace.simps) (simp add: HasPrefix_def)
qed

section \<open>Matches are never empty\<close>

text \<open>
  A match never ends before the place where it began, and both expressions of
  \<^verbatim>\<open>sln.go\<close> begin with a literal character: every match they find ends strictly
  after the place where the search for it began. \<^verbatim>\<open>FindAllStringSubmatch\<close> therefore
  always continues after a match; it never meets the empty match that makes it stop.
\<close>

lemma backtrack_rest_all:
  "\<forall>found rest. backtrack rs s caps = Some (found, rest) \<longrightarrow> length rest \<le> length s"
proof (induction rs s caps rule: backtrack.induct)
  case (1 s caps)
  show ?case by simp
next
  case (2 l rs s caps)
  show ?case
  proof (cases "HasPrefix s l")
    case True
    show ?thesis
    proof (intro allI impI)
      fix found rest
      assume "backtrack (Lit l # rs) s caps = Some (found, rest)"
      with True have "backtrack rs (drop (length l) s) caps = Some (found, rest)" by simp
      with 2 [OF True] have "length rest \<le> length (drop (length l) s)" by blast
      then show "length rest \<le> length s" by simp
    qed
  next
    case False
    then show ?thesis by simp
  qed
next
  case (3 cl rs s caps)
  show ?case
  proof (cases s)
    case Nil
    with 3(1) show ?thesis by simp
  next
    case (Cons x xs)
    show ?thesis
    proof (cases "in_class cl x")
      case False
      with 3(4) [OF Cons] Cons show ?thesis by simp
    next
      case True
      show ?thesis
      proof (cases "backtrack (Star cl # rs) xs caps")
        case None
        with 3(3) [OF Cons True] Cons True show ?thesis by simp
      next
        case (Some r)
        with 3(2) [OF Cons True] Cons True show ?thesis by (cases r) simp
      qed
    qed
  qed
next
  case (4 cl rs s caps)
  show ?case
  proof (cases s)
    case Nil
    then show ?thesis by simp
  next
    case (Cons x xs)
    show ?thesis
    proof (cases "in_class cl x")
      case False
      with Cons show ?thesis by simp
    next
      case True
      with 4 [OF Cons True] Cons show ?thesis by (simp add: le_SucI)
    qed
  qed
next
  case (5 cl rs s caps)
  show ?case
  proof (cases s)
    case Nil
    then show ?thesis by simp
  next
    case (Cons x xs)
    show ?thesis
    proof (cases "in_class cl x")
      case False
      with Cons show ?thesis by simp
    next
      case True
      show ?thesis
      proof (cases "backtrack rs xs caps")
        case None
        with 5(2) [OF Cons True] Cons True show ?thesis by (simp add: le_SucI)
      next
        case (Some r)
        with 5(1) [OF Cons True] Cons True show ?thesis by (cases r) (simp add: le_SucI)
      qed
    qed
  qed
next
  case (6 cl rs s caps)
  show ?case
  proof (cases s)
    case Nil
    with 6(1) show ?thesis by simp
  next
    case (Cons x xs)
    show ?thesis
    proof (cases "in_class cl x")
      case False
      with 6(4) [OF Cons] Cons show ?thesis by simp
    next
      case True
      show ?thesis
      proof (cases "backtrack rs xs caps")
        case None
        with 6(3) [OF Cons True] Cons True show ?thesis by simp
      next
        case (Some r)
        with 6(2) [OF Cons True] Cons True show ?thesis by (cases r) (simp add: le_SucI)
      qed
    qed
  qed
next
  case (7 body rs s caps)
  then show ?case by (simp only: backtrack.simps)
next
  case (8 s0 rs s caps)
  then show ?case by (simp only: backtrack.simps)
next
  case (9 a b rs s caps)
  show ?case
  proof (cases "backtrack (a @ rs) s caps")
    case None
    with 9(2) show ?thesis by simp
  next
    case (Some r)
    with 9(1) show ?thesis by (cases r) simp
  qed
next
  case (10 rs s caps)
  show ?case
  proof (cases "s = []")
    case True
    with 10 show ?thesis by simp
  next
    case False
    then show ?thesis by simp
  qed
qed

lemma backtrack_literal_first:
  assumes "l \<noteq> []" and "backtrack (Lit l # rs) s caps = Some (found, rest)"
  shows "length rest < length s"
proof -
  from assms(2) have p: "HasPrefix s l"
    and b: "backtrack rs (drop (length l) s) caps = Some (found, rest)"
    by (simp_all split: if_splits)
  from p assms(1) have "s \<noteq> []" by (auto simp: HasPrefix_def)
  with assms(1) have "length (drop (length l) s) < length s" by simp
  moreover from b have "length rest \<le> length (drop (length l) s)"
    using backtrack_rest_all by blast
  ultimately show ?thesis by simp
qed

lemma leftmost_literal_first:
  assumes "l \<noteq> []" and "leftmost (Lit l # rs) s = Some (mt, rest)"
  shows "length rest < length s"
  using assms(2)
proof (induction s)
  case Nil
  show ?case
  proof (cases "backtrack (Lit l # rs) [] []")
    case None
    with Nil show ?thesis by simp
  next
    case (Some r)
    obtain found rest' where r: "r = (found, rest')" by (cases r)
    from backtrack_literal_first [OF assms(1)] Some r have "length rest' < length ([] :: string)"
      by blast
    then show ?thesis by simp
  qed
next
  case (Cons x xs)
  show ?case
  proof (cases "backtrack (Lit l # rs) (x # xs) []")
    case None
    with Cons have "length rest < length xs" by simp
    then show ?thesis by simp
  next
    case (Some r)
    obtain found rest' where r: "r = (found, rest')" by (cases r)
    with Some Cons.prems have "rest' = rest" by simp
    with Some r have "backtrack (Lit l # rs) (x # xs) [] = Some (found, rest)" by simp
    with assms(1) show ?thesis by (rule backtrack_literal_first)
  qed
qed

lemma project_re_match_not_empty:
  "leftmost project_re s = Some (mt, rest) \<Longrightarrow> length rest < length s"
  unfolding project_re_def by (erule leftmost_literal_first [rotated]) simp

lemma mapping_re_match_not_empty:
  "leftmost mapping_re s = Some (mt, rest) \<Longrightarrow> length rest < length s"
  unfolding mapping_re_def by (erule leftmost_literal_first [rotated]) simp

lemma FindAllStringSubmatch_project_re:
  "FindAllStringSubmatch project_re s =
     (case leftmost project_re s of
        None \<Rightarrow> []
      | Some (mt, rest) \<Rightarrow> mt # FindAllStringSubmatch project_re rest)"
  by (subst FindAllStringSubmatch.simps)
    (auto split: option.splits dest: project_re_match_not_empty)

lemma FindAllStringSubmatch_mapping_re:
  "FindAllStringSubmatch mapping_re s =
     (case leftmost mapping_re s of
        None \<Rightarrow> []
      | Some (mt, rest) \<Rightarrow> mt # FindAllStringSubmatch mapping_re rest)"
  by (subst FindAllStringSubmatch.simps)
    (auto split: option.splits dest: mapping_re_match_not_empty)

section \<open>The markers of the configuration section\<close>

text \<open>
  The end marker begins with a capital \<^verbatim>\<open>E\<close>, which the start marker does not contain:
  an end marker found from the start marker on lies after it.
\<close>

lemma section_end_skip: "sublist section_end (section_start @ post) \<Longrightarrow> sublist section_end post"
  by (rule sublist_skip [of section_end section_start]) (simp_all add: section_end_def section_start_def)

text \<open>
  Claim C5. For every solution text: when the start marker
  \<^verbatim>\<open>GlobalSection(ProjectConfigurationPlatforms)\<close> does not occur in it,
  \<^verbatim>\<open>parseConfigurationMappings\<close> returns no error and leaves the model as it was, so
  the mapping table, empty when the parser is called, stays empty; when the text is
  \<open>pre @ section_start @ post\<close> with this the first occurrence of the start marker and
  \<^verbatim>\<open>EndGlobalSection\<close> does not occur in \<open>post\<close>, it returns the malformed-section
  error and the model as it was, so no row is produced.
\<close>

theorem parseConfigurationMappings_markers:
  "(\<not> sublist section_start content \<longrightarrow>
      parseConfigurationMappings sln content = (sln, None)) \<and>
   (\<not> sublist section_start (pre @ butlast section_start) \<and> \<not> sublist section_end post \<longrightarrow>
      parseConfigurationMappings sln (pre @ section_start @ post) = (sln, Some ErrConfigSectionFormat))"
proof (intro conjI impI)
  assume "\<not> sublist section_start content"
  then have "Index content section_start = -1" by (simp add: Index_absent)
  then show "parseConfigurationMappings sln content = (sln, None)"
    by (simp add: parseConfigurationMappings_def)
next
  assume a: "\<not> sublist section_start (pre @ butlast section_start) \<and> \<not> sublist section_end post"
  have ne: "section_start \<noteq> []" by (simp add: section_start_def)
  from a ne have start: "Index (pre @ section_start @ post) section_start = int (length pre)"
    by (simp add: Index_first)
  from a have "\<not> sublist section_end (section_start @ post)"
    using section_end_skip by blast
  then have "Index (section_start @ post) section_end = -1" by (simp add: Index_absent)
  with start show "parseConfigurationMappings sln (pre @ section_start @ post) = (sln, Some ErrConfigSectionFormat)"
    by (simp add: parseConfigurationMappings_def)
qed

theorem parseConfigurationMappings_markers_witness:
  "\<not> sublist section_start folder_doc \<and>
   parseConfigurationMappings empty_sln folder_doc = (empty_sln, None) \<and>
   ConfigMappings (fst (parseConfigurationMappings empty_sln folder_doc)) = [] \<and>
   \<not> sublist section_start (''Global'' @ butlast section_start) \<and>
   \<not> sublist section_end open_section_rest \<and>
   parseConfigurationMappings empty_sln (''Global'' @ section_start @ open_section_rest) =
     (empty_sln, Some ErrConfigSectionFormat)"
proof -
  have a: "\<not> sublist section_start folder_doc" by code_simp
  have b: "\<not> sublist section_start (''Global'' @ butlast section_start)" by code_simp
  have c: "\<not> sublist section_end open_section_rest" by code_simp
  have e: "ConfigMappings empty_sln = []" by (simp add: empty_sln_def)
  from parseConfigurationMappings_markers [of folder_doc empty_sln "''Global''" open_section_rest]
    a b c e show ?thesis by simp
qed

section \<open>The path-keyed query\<close>

lemma mapping_lookup_none:
  "\<forall>row \<in> set ms. \<not> (ProjectGUID row = g \<and> SolutionConfig row = sc) \<Longrightarrow> mapping_lookup ms g sc = sc"
  by (induction ms) auto

lemma mapping_lookup_row:
  "distinct (map mapping_key ms) \<Longrightarrow> row \<in> set ms \<Longrightarrow> ProjectGUID row = g \<Longrightarrow> SolutionConfig row = sc
     \<Longrightarrow> mapping_lookup ms g sc = ProjectConfig row"
proof (induction ms)
  case Nil
  then show ?case by simp
next
  case (Cons m ms)
  show ?case
  proof (cases "row = m")
    case True
    with Cons.prems show ?thesis by simp
  next
    case False
    with Cons.prems have in_ms: "row \<in> set ms" by simp
    then have "mapping_key row \<in> set (map mapping_key ms)" by simp
    with Cons.prems(1) have "mapping_key m \<noteq> mapping_key row" by auto
    with Cons.prems have "\<not> (ProjectGUID m = g \<and> SolutionConfig m = sc)"
      by (auto simp: mapping_key_def)
    with Cons in_ms show ?thesis by auto
  qed
qed

text \<open>
  Claim C3. \<^verbatim>\<open>GetProjectConfig(path, solutionConfig)\<close> returns an error, the
  not-in-solution error for that path, exactly when \<open>path\<close> is not a key of the
  reference table. When the path is registered with identifier \<open>guid\<close>: if a row of
  the mapping table has the key \<open>(guid, solutionConfig)\<close>, the table having one row
  per key as every constructed model has, the result is that row's
  \<^verbatim>\<open>ProjectConfig\<close>; if no row has that key, the result is \<open>solutionConfig\<close> itself,
  without error.
\<close>

theorem GetProjectConfig_cases:
  "(GetProjectConfig sln path sc = Inl (ErrProjectNotInSolution path)
      \<longleftrightarrow> path \<notin> Mapping.keys (ProjectGUIDs sln)) \<and>
   (isl (GetProjectConfig sln path sc) \<longleftrightarrow> path \<notin> Mapping.keys (ProjectGUIDs sln)) \<and>
   (\<forall>guid. Mapping.lookup (ProjectGUIDs sln) path = Some guid \<longrightarrow>
      (\<forall>row \<in> set (ConfigMappings sln).
          distinct (map mapping_key (ConfigMappings sln)) \<and>
          ProjectGUID row = guid \<and> SolutionConfig row = sc \<longrightarrow>
          GetProjectConfig sln path sc = Inr (ProjectConfig row)) \<and>
      ((\<forall>row \<in> set (ConfigMappings sln). \<not> (ProjectGUID row = guid \<and> SolutionConfig row = sc)) \<longrightarrow>
          GetProjectConfig sln path sc = Inr sc))"
  by (auto simp: GetProjectConfig_def keys_dom_lookup mapping_lookup_none mapping_lookup_row
      split: option.splits)

theorem GetProjectConfig_cases_witness:
  "GetProjectConfig example_sln ''other.vcxproj'' ''Debug|x64'' =
     Inl (ErrProjectNotInSolution ''other.vcxproj'') \<and>
   GetProjectConfig example_sln ''lib/app.vcxproj'' ''Debug|x64'' = Inr ''Debug|Win32'' \<and>
   GetProjectConfig example_sln ''lib/app.vcxproj'' ''Release|x64'' = Inr ''Release|x64''"
proof -
  have keys: "Mapping.keys (ProjectGUIDs example_sln) = {''lib/app.vcxproj''}"
    by (simp add: example_sln_def)
  have look: "Mapping.lookup (ProjectGUIDs example_sln) ''lib/app.vcxproj'' = Some ''ABCD''"
    by (simp add: example_sln_def)
  have rows: "ConfigMappings example_sln =
      [\<lparr>ProjectGUID = ''ABCD'', SolutionConfig = ''Debug|x64'',
        ProjectConfig = ''Debug|Win32'', ShouldBuild = False\<rparr>]"
    by (simp add: example_sln_def)
  from GetProjectConfig_cases [of example_sln "''other.vcxproj''" "''Debug|x64''"] keys
  have one: "GetProjectConfig example_sln ''other.vcxproj'' ''Debug|x64'' =
     Inl (ErrProjectNotInSolution ''other.vcxproj'')" by simp
  from GetProjectConfig_cases [of example_sln "''lib/app.vcxproj''" "''Debug|x64''"] look rows
  have two: "GetProjectConfig example_sln ''lib/app.vcxproj'' ''Debug|x64'' = Inr ''Debug|Win32''"
    by (simp add: mapping_key_def)
  from GetProjectConfig_cases [of example_sln "''lib/app.vcxproj''" "''Release|x64''"] look rows
  have three: "GetProjectConfig example_sln ''lib/app.vcxproj'' ''Release|x64'' = Inr ''Release|x64''"
    by simp
  from one two three show ?thesis by simp
qed

section \<open>The project-keyed query\<close>

lemma find_project_path_cases:
  "(find_project_path e sln pro ks = [] \<and>
      ((\<forall>p \<in> set ks. filepath_Join e (SolutionDir sln) p \<noteq> ProjectPath pro) \<or> [] \<in> set ks)) \<or>
   (find_project_path e sln pro ks \<in> set ks \<and>
      filepath_Join e (SolutionDir sln) (find_project_path e sln pro ks) = ProjectPath pro)"
  by (induction ks) (auto simp: Let_def)

lemma find_project_path_none:
  "\<forall>p \<in> set ks. filepath_Join e (SolutionDir sln) p \<noteq> ProjectPath pro
     \<Longrightarrow> find_project_path e sln pro ks = []"
  by (induction ks) (auto simp: Let_def)

lemma find_project_path_some:
  "\<exists>p \<in> set ks. filepath_Join e (SolutionDir sln) p = ProjectPath pro
     \<Longrightarrow> find_project_path e sln pro ks \<in> set ks \<and>
         filepath_Join e (SolutionDir sln) (find_project_path e sln pro ks) = ProjectPath pro"
  by (induction ks) (auto simp: Let_def)

text \<open>
  Claim C7. For every model, every project and every solution configuration, whatever
  the order in which the reference table is ranged over,
  \<^verbatim>\<open>GetProjectConfigByProject\<close> returns no error. When no registered path joined to
  the solution directory is the project's path, it returns the solution configuration
  unchanged. When some registered path joins to the project's path (the registered
  paths of a constructed model are never empty), it returns what \<^verbatim>\<open>GetProjectConfig\<close>
  returns for such a registered path, which is not the not-in-solution error.
\<close>

theorem GetProjectConfigByProject_never_fails:
  assumes "range_order (ProjectGUIDs sln) order"
  shows "\<not> isl (GetProjectConfigByProject e order sln pro sc) \<and>
    ((\<forall>p \<in> Mapping.keys (ProjectGUIDs sln). filepath_Join e (SolutionDir sln) p \<noteq> ProjectPath pro)
       \<longrightarrow> GetProjectConfigByProject e order sln pro sc = Inr sc) \<and>
    ((\<exists>p \<in> Mapping.keys (ProjectGUIDs sln). filepath_Join e (SolutionDir sln) p = ProjectPath pro)
       \<and> [] \<notin> Mapping.keys (ProjectGUIDs sln)
       \<longrightarrow> (\<exists>p \<in> Mapping.keys (ProjectGUIDs sln).
              filepath_Join e (SolutionDir sln) p = ProjectPath pro \<and>
              GetProjectConfigByProject e order sln pro sc = GetProjectConfig sln p sc \<and>
              \<not> isl (GetProjectConfig sln p sc)))"
proof -
  from assms have keys: "set order = Mapping.keys (ProjectGUIDs sln)"
    by (simp add: range_order_def)
  let ?p = "find_project_path e sln pro order"
  have registered: "?p \<noteq> [] \<Longrightarrow> ?p \<in> Mapping.keys (ProjectGUIDs sln)"
    using find_project_path_cases [of e sln pro order] keys by auto
  have ok: "p \<in> Mapping.keys (ProjectGUIDs sln) \<Longrightarrow> \<not> isl (GetProjectConfig sln p sc)" for p
    by (auto simp: GetProjectConfig_def keys_dom_lookup split: option.splits)
  have first: "\<not> isl (GetProjectConfigByProject e order sln pro sc)"
    using registered ok by (simp add: GetProjectConfigByProject_def Let_def)
  have second: "GetProjectConfigByProject e order sln pro sc = Inr sc"
    if "\<forall>p \<in> Mapping.keys (ProjectGUIDs sln). filepath_Join e (SolutionDir sln) p \<noteq> ProjectPath pro"
    using that keys find_project_path_none [of order e sln pro]
    by (simp add: GetProjectConfigByProject_def)
  have third: "\<exists>p \<in> Mapping.keys (ProjectGUIDs sln).
              filepath_Join e (SolutionDir sln) p = ProjectPath pro \<and>
              GetProjectConfigByProject e order sln pro sc = GetProjectConfig sln p sc \<and>
              \<not> isl (GetProjectConfig sln p sc)"
    if "\<exists>p \<in> Mapping.keys (ProjectGUIDs sln). filepath_Join e (SolutionDir sln) p = ProjectPath pro"
      and "[] \<notin> Mapping.keys (ProjectGUIDs sln)"
  proof -
    from that(1) keys have f: "?p \<in> set order \<and> filepath_Join e (SolutionDir sln) ?p = ProjectPath pro"
      using find_project_path_some [of order e sln pro] by simp
    with that(2) keys have "?p \<noteq> []" by auto
    then have "GetProjectConfigByProject e order sln pro sc = GetProjectConfig sln ?p sc"
      by (simp add: GetProjectConfigByProject_def Let_def)
    with f keys ok show ?thesis by auto
  qed
  from first second third show ?thesis by blast
qed

theorem GetProjectConfigByProject_never_fails_witness:
  "range_order (ProjectGUIDs example_sln) [''lib/app.vcxproj''] \<and>
   GetProjectConfigByProject example_env [''lib/app.vcxproj''] example_sln example_project ''Debug|x64'' =
     Inr ''Debug|Win32'' \<and>
   GetProjectConfigByProject example_env [''lib/app.vcxproj''] example_sln twin_project ''Debug|x64'' =
     Inr ''Debug|x64''"
proof -
  have keys: "Mapping.keys (ProjectGUIDs example_sln) = {''lib/app.vcxproj''}"
    by (simp add: example_sln_def)
  have order: "range_order (ProjectGUIDs example_sln) [''lib/app.vcxproj'']"
    by (simp add: range_order_def keys)
  have joined: "filepath_Join example_env (SolutionDir example_sln) ''lib/app.vcxproj'' =
      ''/work/lib/app.vcxproj''"
    by code_simp
  have own: "ProjectPath example_project = ''/work/lib/app.vcxproj''"
    and other: "ProjectPath twin_project = ''/work/app.vcxproj''"
    by (simp_all add: example_project_def twin_project_def)
  have query: "GetProjectConfig example_sln ''lib/app.vcxproj'' ''Debug|x64'' = Inr ''Debug|Win32''"
    by code_simp
  from GetProjectConfigByProject_never_fails [OF order, of example_env example_project "''Debug|x64''"]
    keys joined own query
  have one: "GetProjectConfigByProject example_env [''lib/app.vcxproj''] example_sln example_project
      ''Debug|x64'' = Inr ''Debug|Win32''"
    by simp
  from GetProjectConfigByProject_never_fails [OF order, of example_env twin_project "''Debug|x64''"]
    keys joined other
  have two: "GetProjectConfigByProject example_env [''lib/app.vcxproj''] example_sln twin_project
      ''Debug|x64'' = Inr ''Debug|x64''"
    by simp
  from order one two show ?thesis by simp
qed

section \<open>The build flag\<close>

lemma mapping_lookup_ShouldBuild:
  "map (\<lambda>m. m\<lparr>ShouldBuild := False\<rparr>) ms = map (\<lambda>m. m\<lparr>ShouldBuild := False\<rparr>) ms'
     \<Longrightarrow> mapping_lookup ms g sc = mapping_lookup ms' g sc"
proof (induction ms arbitrary: ms')
  case Nil
  then show ?case by simp
next
  case (Cons m ms)
  then obtain m' ns where ms': "ms' = m' # ns" by (cases ms') auto
  with Cons.prems have hd_eq: "m\<lparr>ShouldBuild := False\<rparr> = m'\<lparr>ShouldBuild := False\<rparr>"
    and tl_eq: "map (\<lambda>m. m\<lparr>ShouldBuild := False\<rparr>) ms = map (\<lambda>m. m\<lparr>ShouldBuild := False\<rparr>) ns"
    by simp_all
  from hd_eq have "ProjectGUID m = ProjectGUID m'" "SolutionConfig m = SolutionConfig m'"
    "ProjectConfig m = ProjectConfig m'"
    by (cases m, cases m', simp)+
  with Cons.IH [OF tl_eq] ms' show ?case by simp
qed

lemma file_loop_SolutionDir:
  "SolutionDir a = SolutionDir b \<Longrightarrow> file_loop e a pro pc fs acc = file_loop e b pro pc fs acc"
  by (induction fs arbitrary: acc) (auto split: sum.splits)

lemma find_project_path_SolutionDir:
  "SolutionDir a = SolutionDir b \<Longrightarrow> find_project_path e a pro ks = find_project_path e b pro ks"
  by (induction ks) auto

lemma project_loop_cong:
  assumes "SolutionDir a = SolutionDir b"
    and "\<And>i pro. GetProjectConfigByProject e (orders i) a pro conf = GetProjectConfigByProject e (orders i) b pro conf"
  shows "project_loop e orders a conf i pros acc = project_loop e orders b conf i pros acc"
proof (induction pros arbitrary: i acc)
  case Nil
  then show ?case by simp
next
  case (Cons pro pros)
  show ?case
    by (simp add: assms(2) file_loop_SolutionDir [OF assms(1)] Cons.IH split: prod.splits option.splits)
qed

text \<open>
  Claim C10. Two models that differ at most in the \<^verbatim>\<open>ShouldBuild\<close> values of their
  mapping rows give the same results of \<^verbatim>\<open>GetProjectConfig\<close>,
  \<^verbatim>\<open>GetProjectConfigByProject\<close> and \<^verbatim>\<open>CompileCommandsJson\<close> on every input.
\<close>

theorem ShouldBuild_never_observed:
  assumes "SolutionDir a = SolutionDir b"
    and "ProjectList a = ProjectList b"
    and "ProjectGUIDs a = ProjectGUIDs b"
    and "map (\<lambda>m. m\<lparr>ShouldBuild := False\<rparr>) (ConfigMappings a) =
         map (\<lambda>m. m\<lparr>ShouldBuild := False\<rparr>) (ConfigMappings b)"
  shows "GetProjectConfig a path sc = GetProjectConfig b path sc \<and>
         GetProjectConfigByProject e order a pro sc = GetProjectConfigByProject e order b pro sc \<and>
         CompileCommandsJson e orders a conf = CompileCommandsJson e orders b conf"
proof -
  have q: "GetProjectConfig a p c = GetProjectConfig b p c" for p c
    using assms(3) mapping_lookup_ShouldBuild [OF assms(4)]
    by (simp add: GetProjectConfig_def split: option.splits)
  have r: "GetProjectConfigByProject e ks a p c = GetProjectConfigByProject e ks b p c" for ks p c
    unfolding GetProjectConfigByProject_def
    by (simp only: q find_project_path_SolutionDir [OF assms(1)])
  have "CompileCommandsJson e orders a conf = CompileCommandsJson e orders b conf"
    unfolding CompileCommandsJson_def assms(2)
    by (rule project_loop_cong [OF assms(1)]) (rule r)
  with q r show ?thesis by simp
qed

theorem ShouldBuild_never_observed_witness:
  "GetProjectConfig example_sln ''lib/app.vcxproj'' ''Debug|x64'' =
     GetProjectConfig
       (example_sln\<lparr>ConfigMappings := map (\<lambda>m. m\<lparr>ShouldBuild := True\<rparr>) (ConfigMappings example_sln)\<rparr>)
       ''lib/app.vcxproj'' ''Debug|x64'' \<and>
   GetProjectConfigByProject example_env [''lib/app.vcxproj''] example_sln example_project ''Debug|x64'' =
     GetProjectConfigByProject example_env [''lib/app.vcxproj'']
       (example_sln\<lparr>ConfigMappings := map (\<lambda>m. m\<lparr>ShouldBuild := True\<rparr>) (ConfigMappings example_sln)\<rparr>)
       example_project ''Debug|x64'' \<and>
   CompileCommandsJson example_env (\<lambda>i. [''lib/app.vcxproj'']) example_sln ''Debug|x64'' =
     CompileCommandsJson example_env (\<lambda>i. [''lib/app.vcxproj''])
       (example_sln\<lparr>ConfigMappings := map (\<lambda>m. m\<lparr>ShouldBuild := True\<rparr>) (ConfigMappings example_sln)\<rparr>)
       ''Debug|x64'' \<and>
   map ShouldBuild (ConfigMappings example_sln) \<noteq>
     map ShouldBuild (map (\<lambda>m. m\<lparr>ShouldBuild := True\<rparr>) (ConfigMappings example_sln))"
proof -
  let ?b = "example_sln\<lparr>ConfigMappings := map (\<lambda>m. m\<lparr>ShouldBuild := True\<rparr>) (ConfigMappings example_sln)\<rparr>"
  have "SolutionDir example_sln = SolutionDir ?b" and "ProjectList example_sln = ProjectList ?b"
    and "ProjectGUIDs example_sln = ProjectGUIDs ?b"
    and "map (\<lambda>m. m\<lparr>ShouldBuild := False\<rparr>) (ConfigMappings example_sln) =
         map (\<lambda>m. m\<lparr>ShouldBuild := False\<rparr>) (ConfigMappings ?b)"
    by (simp_all add: example_sln_def)
  from ShouldBuild_never_observed [OF this, of "''lib/app.vcxproj''" "''Debug|x64''" example_env
      "[''lib/app.vcxproj'']" example_project "\<lambda>i. [''lib/app.vcxproj'']" "''Debug|x64''"]
  show ?thesis by (simp add: example_sln_def)
qed

section \<open>Merging the rows of the configuration section\<close>

text \<open>
  The table that \<^verbatim>\<open>parseConfigurationMappings\<close> leaves is the merge loop run over the
  raw rows. The loop keeps the keys of the table distinct, changes no row of another
  key, and at a row of the key either appends the first row of that key or merges into
  the one there is.
\<close>

lemma parse_by_matches:
  "ConfigMappings (fst (parseConfigurationMappings sln content)) =
     mapping_loop (ConfigMappings sln) (mapping_matches content)"
  by (simp add: parseConfigurationMappings_def mapping_matches_def Let_def)

lemma update_existing_keys:
  "map mapping_key (fst (update_existing ms g s p b)) = map mapping_key ms"
  by (induction ms) (auto simp: mapping_key_def split: prod.splits)

lemma update_existing_found:
  "snd (update_existing ms g s p b) \<longleftrightarrow> (g, s) \<in> set (map mapping_key ms)"
  by (induction ms) (auto simp: mapping_key_def split: prod.splits)

lemma update_existing_row:
  "row_of k (fst (update_existing ms g s p b)) =
     (if k = (g, s) then map_option (merged p b) (row_of k ms) else row_of k ms)"
  by (induction ms) (auto simp: row_of_def mapping_key_def merged_def split: prod.splits)

lemma row_of_append:
  "row_of k (ms @ ns) = (case row_of k ms of Some m \<Rightarrow> Some m | None \<Rightarrow> row_of k ns)"
  by (induction ms) (auto simp: row_of_def)

lemma row_of_None: "row_of k ms = None \<longleftrightarrow> k \<notin> set (map mapping_key ms)"
  by (induction ms) (auto simp: row_of_def)

lemma merge_match_keys:
  "map mapping_key (merge_match ms r) =
     (if length r \<ge> 4 \<and> (r ! 1, r ! 2) \<notin> set (map mapping_key ms)
      then map mapping_key ms @ [(r ! 1, r ! 2)] else map mapping_key ms)"
proof -
  obtain ms' found where u: "update_existing ms (r ! 1) (r ! 2) (TrimSpace (r ! 3)) (Contains (r ! 0) ''Build.0'') = (ms', found)"
    by (cases "update_existing ms (r ! 1) (r ! 2) (TrimSpace (r ! 3)) (Contains (r ! 0) ''Build.0'')")
  from u have k: "map mapping_key ms' = map mapping_key ms"
    using update_existing_keys [of ms "r ! 1" "r ! 2" "TrimSpace (r ! 3)" "Contains (r ! 0) ''Build.0''"] by simp
  from u have f: "found \<longleftrightarrow> (r ! 1, r ! 2) \<in> set (map mapping_key ms)"
    using update_existing_found [of ms "r ! 1" "r ! 2" "TrimSpace (r ! 3)" "Contains (r ! 0) ''Build.0''"] by simp
  show ?thesis
    using u k f by (simp add: merge_match_def Let_def mapping_key_def)
qed

lemma merge_match_distinct:
  "distinct (map mapping_key ms) \<Longrightarrow> distinct (map mapping_key (merge_match ms r))"
  by (simp add: merge_match_keys)

lemma merge_match_row:
  assumes "length r = 4"
  shows "row_of k (merge_match ms r) =
     (if k = (r ! 1, r ! 2)
      then (case row_of k ms of
              None \<Rightarrow> Some \<lparr>ProjectGUID = r ! 1, SolutionConfig = r ! 2,
                            ProjectConfig = TrimSpace (r ! 3),
                            ShouldBuild = Contains (r ! 0) ''Build.0''\<rparr>
            | Some m \<Rightarrow> Some (merged (TrimSpace (r ! 3)) (Contains (r ! 0) ''Build.0'') m))
      else row_of k ms)"
proof -
  obtain ms' found where u: "update_existing ms (r ! 1) (r ! 2) (TrimSpace (r ! 3)) (Contains (r ! 0) ''Build.0'') = (ms', found)"
    by (cases "update_existing ms (r ! 1) (r ! 2) (TrimSpace (r ! 3)) (Contains (r ! 0) ''Build.0'')")
  from u have row: "row_of k ms' =
     (if k = (r ! 1, r ! 2) then map_option (merged (TrimSpace (r ! 3)) (Contains (r ! 0) ''Build.0'')) (row_of k ms) else row_of k ms)"
    using update_existing_row [of k ms "r ! 1" "r ! 2" "TrimSpace (r ! 3)" "Contains (r ! 0) ''Build.0''"] by simp
  from u have f: "found \<longleftrightarrow> row_of (r ! 1, r ! 2) ms \<noteq> None"
    using update_existing_found [of ms "r ! 1" "r ! 2" "TrimSpace (r ! 3)" "Contains (r ! 0) ''Build.0''"]
    by (simp add: row_of_None)
  show ?thesis
  proof (cases found)
    case True
    with u row f assms show ?thesis
      by (auto simp: merge_match_def Let_def)
  next
    case False
    with f have none: "row_of (r ! 1, r ! 2) ms = None" by simp
    have new: "row_of k [\<lparr>ProjectGUID = r ! 1, SolutionConfig = r ! 2,
                            ProjectConfig = TrimSpace (r ! 3),
                            ShouldBuild = Contains (r ! 0) ''Build.0''\<rparr>] =
          (if k = (r ! 1, r ! 2) then Some \<lparr>ProjectGUID = r ! 1, SolutionConfig = r ! 2,
                            ProjectConfig = TrimSpace (r ! 3),
                            ShouldBuild = Contains (r ! 0) ''Build.0''\<rparr> else None)"
      by (auto simp: row_of_def mapping_key_def)
    from False u assms have "merge_match ms r = ms' @ [\<lparr>ProjectGUID = r ! 1, SolutionConfig = r ! 2,
                            ProjectConfig = TrimSpace (r ! 3),
                            ShouldBuild = Contains (r ! 0) ''Build.0''\<rparr>]"
      by (simp add: merge_match_def Let_def)
    with row none new show ?thesis
      by (auto simp: row_of_append split: option.splits)
  qed
qed

lemma merge_match_other:
  assumes "\<not> (r ! 1 = fst k \<and> r ! 2 = snd k)"
  shows "row_of k (merge_match ms r) = row_of k ms"
proof (cases "length r \<ge> 4")
  case False
  then show ?thesis by (simp add: merge_match_def)
next
  case True
  obtain ms' found where u: "update_existing ms (r ! 1) (r ! 2) (TrimSpace (r ! 3)) (Contains (r ! 0) ''Build.0'') = (ms', found)"
    by (cases "update_existing ms (r ! 1) (r ! 2) (TrimSpace (r ! 3)) (Contains (r ! 0) ''Build.0'')")
  from assms have ne: "k \<noteq> (r ! 1, r ! 2)" by auto
  from u ne have row: "row_of k ms' = row_of k ms"
    using update_existing_row [of k ms "r ! 1" "r ! 2" "TrimSpace (r ! 3)" "Contains (r ! 0) ''Build.0''"] by simp
  have new: "row_of k [\<lparr>ProjectGUID = r ! 1, SolutionConfig = r ! 2,
                            ProjectConfig = TrimSpace (r ! 3),
                            ShouldBuild = Contains (r ! 0) ''Build.0''\<rparr>] = None"
    using ne by (auto simp: row_of_def mapping_key_def)
  show ?thesis
    using u row new True
    by (cases found) (auto simp: merge_match_def Let_def row_of_append split: option.splits)
qed

lemma mapping_loop_append:
  "mapping_loop ms (rs @ rs') = mapping_loop (mapping_loop ms rs) rs'"
  by (induction rs arbitrary: ms) auto

lemma mapping_loop_distinct:
  "distinct (map mapping_key ms) \<Longrightarrow> distinct (map mapping_key (mapping_loop ms rs))"
  by (induction rs arbitrary: ms) (auto simp: merge_match_distinct)

lemma mapping_loop_other:
  "\<forall>r \<in> set rs. \<not> (r ! 1 = fst k \<and> r ! 2 = snd k) \<Longrightarrow> row_of k (mapping_loop ms rs) = row_of k ms"
  by (induction rs arbitrary: ms) (auto simp: merge_match_other)

lemma row_of_filter:
  "distinct (map mapping_key ms) \<Longrightarrow> row_of k ms = Some m \<Longrightarrow> filter (\<lambda>m. mapping_key m = k) ms = [m]"
proof (induction ms)
  case Nil
  then show ?case by (simp add: row_of_def)
next
  case (Cons a ms)
  show ?case
  proof (cases "mapping_key a = k")
    case True
    with Cons.prems have "a = m" by (simp add: row_of_def)
    moreover have "filter (\<lambda>m. mapping_key m = k) ms = []"
    proof -
      from True Cons.prems(1) have "k \<notin> mapping_key ` set ms" by simp
      then have "\<forall>x \<in> set ms. mapping_key x \<noteq> k" by blast
      then show ?thesis by (simp add: filter_empty_conv)
    qed
    ultimately show ?thesis using True by simp
  next
    case False
    with Cons show ?thesis by (simp add: row_of_def)
  qed
qed

lemma parseConfigurationMappings_distinct:
  "distinct (map mapping_key (ConfigMappings sln)) \<Longrightarrow>
     distinct (map mapping_key (ConfigMappings (fst (parseConfigurationMappings sln content))))"
  by (simp add: parse_by_matches mapping_loop_distinct)

text \<open>
  Claim C2. When two raw rows of the configuration section have the same project
  identifier \<open>g\<close> and solution configuration \<open>sc\<close> (and no other raw row has), parsing
  into an empty table gives exactly one row for that key. Its \<^verbatim>\<open>ShouldBuild\<close> is true
  when the text of either raw row contains the build marker; its \<^verbatim>\<open>ProjectConfig\<close> is
  the trimmed value of the row processed first, the value of the second row being
  taken only when the first is empty. The two rows are arbitrary, so this covers both
  orders.
\<close>

theorem merge_of_two_rows:
  assumes rows: "mapping_matches content = before @ [w1, g, sc, v1] # between @ [w2, g, sc, v2] # after"
    and others: "\<forall>r \<in> set (before @ between @ after). \<not> (r ! 1 = g \<and> r ! 2 = sc)"
    and empty: "ConfigMappings sln = []"
  shows "filter (\<lambda>m. ProjectGUID m = g \<and> SolutionConfig m = sc)
           (ConfigMappings (fst (parseConfigurationMappings sln content))) =
         [\<lparr>ProjectGUID = g, SolutionConfig = sc,
           ProjectConfig = (if TrimSpace v1 = [] then TrimSpace v2 else TrimSpace v1),
           ShouldBuild = (Contains w1 ''Build.0'' \<or> Contains w2 ''Build.0'')\<rparr>]"
proof -
  let ?k = "(g, sc)"
  let ?t0 = "mapping_loop [] before"
  let ?t1 = "merge_match ?t0 [w1, g, sc, v1]"
  let ?t2 = "mapping_loop ?t1 between"
  let ?t3 = "merge_match ?t2 [w2, g, sc, v2]"
  let ?t4 = "mapping_loop ?t3 after"
  let ?row1 = "\<lparr>ProjectGUID = g, SolutionConfig = sc, ProjectConfig = TrimSpace v1,
                 ShouldBuild = Contains w1 ''Build.0''\<rparr>"
  have final: "ConfigMappings (fst (parseConfigurationMappings sln content)) = ?t4"
    using rows empty by (simp add: parse_by_matches mapping_loop_append)
  from others have o0: "\<forall>r \<in> set before. \<not> (r ! 1 = fst ?k \<and> r ! 2 = snd ?k)"
    and o2: "\<forall>r \<in> set between. \<not> (r ! 1 = fst ?k \<and> r ! 2 = snd ?k)"
    and o4: "\<forall>r \<in> set after. \<not> (r ! 1 = fst ?k \<and> r ! 2 = snd ?k)"
    by auto
  have r0: "row_of ?k ?t0 = None"
    using mapping_loop_other [OF o0, of "[]"] by (simp add: row_of_def)
  have r1: "row_of ?k ?t1 = Some ?row1"
    using r0 by (simp add: merge_match_row)
  have r2: "row_of ?k ?t2 = Some ?row1"
    using r1 mapping_loop_other [OF o2, of ?t1] by simp
  have r3: "row_of ?k ?t3 = Some (merged (TrimSpace v2) (Contains w2 ''Build.0'') ?row1)"
    using r2 by (simp add: merge_match_row)
  have r4: "row_of ?k ?t4 = Some (merged (TrimSpace v2) (Contains w2 ''Build.0'') ?row1)"
    using r3 mapping_loop_other [OF o4, of ?t3] by simp
  have d: "distinct (map mapping_key ?t4)"
    by (intro mapping_loop_distinct merge_match_distinct) simp
  have "filter (\<lambda>m. mapping_key m = ?k) ?t4 = [merged (TrimSpace v2) (Contains w2 ''Build.0'') ?row1]"
    using d r4 by (rule row_of_filter)
  then show ?thesis
    unfolding final by (simp add: mapping_key_def merged_def)
qed

theorem merge_of_two_rows_witness:
  "filter (\<lambda>m. ProjectGUID m = ''ABCD'' \<and> SolutionConfig m = ''Debug|x64'')
     (ConfigMappings (fst (parseConfigurationMappings empty_sln active_first_doc))) =
     [\<lparr>ProjectGUID = ''ABCD'', SolutionConfig = ''Debug|x64'',
       ProjectConfig = ''Debug|x64'', ShouldBuild = True\<rparr>] \<and>
   filter (\<lambda>m. ProjectGUID m = ''ABCD'' \<and> SolutionConfig m = ''Debug|x64'')
     (ConfigMappings (fst (parseConfigurationMappings empty_sln build_first_doc))) =
     [\<lparr>ProjectGUID = ''ABCD'', SolutionConfig = ''Debug|x64'',
       ProjectConfig = ''Release|x64'', ShouldBuild = True\<rparr>]"
proof -
  have e: "ConfigMappings empty_sln = []" by (simp add: empty_sln_def)
  have none: "\<forall>r \<in> set ([] @ [] @ ([] :: string list list)). \<not> (r ! 1 = ''ABCD'' \<and> r ! 2 = ''Debug|x64'')"
    by simp
  have a: "mapping_matches active_first_doc =
      [] @ [active_row, ''ABCD'', ''Debug|x64'', ''Debug|x64''] #
      [] @ [build_row, ''ABCD'', ''Debug|x64'', ''Release|x64''] # []"
    by code_simp
  have b: "mapping_matches build_first_doc =
      [] @ [build_row, ''ABCD'', ''Debug|x64'', ''Release|x64''] #
      [] @ [active_row, ''ABCD'', ''Debug|x64'', ''Debug|x64''] # []"
    by code_simp
  have t: "TrimSpace ''Debug|x64'' = ''Debug|x64''" "TrimSpace ''Release|x64'' = ''Release|x64''"
    by code_simp+
  have c: "\<not> Contains active_row ''Build.0''" "Contains build_row ''Build.0''"
    by code_simp+
  from merge_of_two_rows [OF a none e] t c
  have one: "filter (\<lambda>m. ProjectGUID m = ''ABCD'' \<and> SolutionConfig m = ''Debug|x64'')
     (ConfigMappings (fst (parseConfigurationMappings empty_sln active_first_doc))) =
     [\<lparr>ProjectGUID = ''ABCD'', SolutionConfig = ''Debug|x64'',
       ProjectConfig = ''Debug|x64'', ShouldBuild = True\<rparr>]"
    by simp
  from merge_of_two_rows [OF b none e] t c
  have two: "filter (\<lambda>m. ProjectGUID m = ''ABCD'' \<and> SolutionConfig m = ''Debug|x64'')
     (ConfigMappings (fst (parseConfigurationMappings empty_sln build_first_doc))) =
     [\<lparr>ProjectGUID = ''ABCD'', SolutionConfig = ''Debug|x64'',
       ProjectConfig = ''Release|x64'', ShouldBuild = True\<rparr>]"
    by simp
  from one two show ?thesis by simp
qed

text \<open>
  A first value that trims to the empty string is the one case in which the second
  row's value is stored: here the first row's value is a vertical tab.
\<close>

lemma blank_first_example:
  "ConfigMappings (fst (parseConfigurationMappings empty_sln blank_first_doc)) =
     [\<lparr>ProjectGUID = ''ABCD'', SolutionConfig = ''Debug|x64'',
       ProjectConfig = ''Release|x64'', ShouldBuild = True\<rparr>]"
  by code_simp

lemma mapping_loop_ShouldBuild_kept:
  "row_of k ms = Some m \<Longrightarrow> ShouldBuild m \<Longrightarrow> \<exists>m'. row_of k (mapping_loop ms rs) = Some m' \<and> ShouldBuild m'"
proof (induction rs arbitrary: ms m)
  case Nil
  then show ?case by simp
next
  case (Cons r rs)
  have "\<exists>m'. row_of k (merge_match ms r) = Some m' \<and> ShouldBuild m'"
  proof (cases "length r \<ge> 4 \<and> r ! 1 = fst k \<and> r ! 2 = snd k")
    case False
    then consider "\<not> length r \<ge> 4" | "\<not> (r ! 1 = fst k \<and> r ! 2 = snd k)" by blast
    then show ?thesis
    proof cases
      case 1
      with Cons.prems show ?thesis by (simp add: merge_match_def)
    next
      case 2
      with Cons.prems show ?thesis by (simp add: merge_match_other)
    qed
  next
    case True
    then have k: "(g', s') = k \<Longrightarrow> g' = r ! 1 \<and> s' = r ! 2" for g' s' by auto
    obtain ms' found where u: "update_existing ms (r ! 1) (r ! 2) (TrimSpace (r ! 3)) (Contains (r ! 0) ''Build.0'') = (ms', found)"
      by (cases "update_existing ms (r ! 1) (r ! 2) (TrimSpace (r ! 3)) (Contains (r ! 0) ''Build.0'')")
    from True have keq: "k = (r ! 1, r ! 2)" by (cases k) auto
    from u keq have row: "row_of k ms' = map_option (merged (TrimSpace (r ! 3)) (Contains (r ! 0) ''Build.0'')) (row_of k ms)"
      using update_existing_row [of k ms "r ! 1" "r ! 2" "TrimSpace (r ! 3)" "Contains (r ! 0) ''Build.0''"] by simp
    with Cons.prems have "row_of k ms' = Some (merged (TrimSpace (r ! 3)) (Contains (r ! 0) ''Build.0'') m)" by simp
    moreover have "ShouldBuild (merged (TrimSpace (r ! 3)) (Contains (r ! 0) ''Build.0'') m)"
      using Cons.prems by (simp add: merged_def)
    ultimately show ?thesis
      using u True by (cases found) (auto simp: merge_match_def Let_def row_of_append)
  qed
  then obtain m' where "row_of k (merge_match ms r) = Some m'" "ShouldBuild m'" by blast
  from Cons.IH [OF this] show ?case by simp
qed

text \<open>
  Claim C9. The build flag is decided by searching the whole matched text for
  \<^verbatim>\<open>Build.0\<close>: every raw row \<open>[w, g, sc, v]\<close> of the configuration section whose
  matched text \<open>w\<close> contains \<^verbatim>\<open>Build.0\<close>, whichever suffix it has, for example an
  \<^verbatim>\<open>ActiveCfg\<close> row whose value contains it, leaves the row of the key \<open>(g, sc)\<close> with
  \<^verbatim>\<open>ShouldBuild\<close> true.
\<close>

theorem Build0_anywhere_sets_ShouldBuild:
  assumes "[w, g, sc, v] \<in> set (mapping_matches content)"
    and "Contains w ''Build.0''"
  shows "\<exists>m. find (\<lambda>m. ProjectGUID m = g \<and> SolutionConfig m = sc)
                (ConfigMappings (fst (parseConfigurationMappings sln content))) = Some m \<and>
             ShouldBuild m"
proof -
  from assms(1) obtain before after where
    split: "mapping_matches content = before @ [w, g, sc, v] # after"
    by (auto simp: in_set_conv_decomp)
  let ?t0 = "mapping_loop (ConfigMappings sln) before"
  have "\<exists>m. row_of (g, sc) (merge_match ?t0 [w, g, sc, v]) = Some m \<and> ShouldBuild m"
    using assms(2) by (cases "row_of (g, sc) ?t0") (simp_all add: merge_match_row merged_def)
  then obtain m where "row_of (g, sc) (merge_match ?t0 [w, g, sc, v]) = Some m" "ShouldBuild m"
    by blast
  then have "\<exists>m'. row_of (g, sc) (mapping_loop (merge_match ?t0 [w, g, sc, v]) after) = Some m' \<and> ShouldBuild m'"
    by (rule mapping_loop_ShouldBuild_kept)
  then show ?thesis
    using split by (simp add: parse_by_matches mapping_loop_append row_of_def mapping_key_def)
qed

theorem Build0_anywhere_sets_ShouldBuild_witness:
  "[build0_row, ''ABCD'', ''Debug|x64'', ''Build.0|x64''] \<in> set (mapping_matches build0_doc) \<and>
   Contains build0_row ''Build.0'' \<and>
   (\<exists>m. find (\<lambda>m. ProjectGUID m = ''ABCD'' \<and> SolutionConfig m = ''Debug|x64'')
          (ConfigMappings (fst (parseConfigurationMappings empty_sln build0_doc))) = Some m \<and>
        ShouldBuild m)"
proof -
  have a: "[build0_row, ''ABCD'', ''Debug|x64'', ''Build.0|x64''] \<in> set (mapping_matches build0_doc)"
    by code_simp
  have b: "Contains build0_row ''Build.0''" by code_simp
  from Build0_anywhere_sets_ShouldBuild [OF a b, of empty_sln] a b show ?thesis by simp
qed

text \<open>The active-configuration row \<^verbatim>\<open>{ABCD}.Debug|x64.ActiveCfg = Build.0|x64\<close> alone.\<close>

lemma build0_example:
  "ConfigMappings (fst (parseConfigurationMappings empty_sln build0_doc)) =
     [\<lparr>ProjectGUID = ''ABCD'', SolutionConfig = ''Debug|x64'',
       ProjectConfig = ''Build.0|x64'', ShouldBuild = True\<rparr>]"
  by code_simp

section \<open>The reference table\<close>

lemma reference_loop_keys:
  "Mapping.keys (reference_loop guids ms) =
     Mapping.keys guids \<union>
     {Replace (m ! 1) [CHR 0x5C] ''/'' | m. m \<in> set ms \<and> length m \<ge> 3 \<and> HasSuffix (m ! 1) ''.vcxproj''}"
proof (induction ms arbitrary: guids)
  case Nil
  then show ?case by simp
next
  case (Cons m ms)
  show ?case
    unfolding reference_loop.simps Cons.IH
    by (auto simp: Let_def)
qed

text \<open>
  Claim C4. After \<^verbatim>\<open>parseProjectReferences\<close> the keys of the reference table are the
  keys it had before (none when \<^verbatim>\<open>NewSln\<close> calls it) and, for exactly those matches
  of the \<^verbatim>\<open>Project(...)\<close> expression whose path ends with \<^verbatim>\<open>.vcxproj\<close>, the path with
  every backslash replaced by a forward slash; every other match is passed over. The
  parser returns the no-project-files error exactly when the table is then empty, and
  no error exactly when it is not.
\<close>

theorem parseProjectReferences_retains:
  "Mapping.keys (ProjectGUIDs (fst (parseProjectReferences sln content))) =
     Mapping.keys (ProjectGUIDs sln) \<union>
     {map (\<lambda>c. if c = CHR 0x5C then CHR ''/'' else c) (m ! 1) | m.
        m \<in> set (FindAllStringSubmatch project_re content) \<and> length m \<ge> 3 \<and>
        suffix ''.vcxproj'' (m ! 1)} \<and>
   (snd (parseProjectReferences sln content) = Some ErrNoProjectFiles
      \<longleftrightarrow> Mapping.keys (ProjectGUIDs (fst (parseProjectReferences sln content))) = {}) \<and>
   (snd (parseProjectReferences sln content) = None
      \<longleftrightarrow> Mapping.keys (ProjectGUIDs (fst (parseProjectReferences sln content))) \<noteq> {})"
  by (simp add: parseProjectReferences_def Let_def reference_loop_keys Replace_char HasSuffix_iff
      Mapping.is_empty_def)

theorem parseProjectReferences_retains_witness:
  "snd (parseProjectReferences empty_sln mixed_doc) = None \<and>
   Mapping.keys (ProjectGUIDs (fst (parseProjectReferences empty_sln mixed_doc))) =
     {''lib/app.vcxproj''} \<and>
   snd (parseProjectReferences empty_sln folder_doc) = Some ErrNoProjectFiles"
proof -
  have e: "Mapping.keys (ProjectGUIDs empty_sln) = {}" by (simp add: empty_sln_def)
  have m: "FindAllStringSubmatch project_re mixed_doc =
      [[app_reference, ''lib'' @ [CHR 0x5C] @ ''app.vcxproj'', ''ABCD''],
       [folder_reference, ''docs'', ''F001''],
       [csproj_reference, ''tool/tool.csproj'', ''C5C5'']]"
    by code_simp
  have f: "FindAllStringSubmatch project_re folder_doc = [[folder_reference, ''docs'', ''F001'']]"
    by code_simp
  have s1: "suffix ''.vcxproj'' (''lib'' @ [CHR 0x5C] @ ''app.vcxproj'')"
    and s2: "\<not> suffix ''.vcxproj'' ''docs''"
    and s3: "\<not> suffix ''.vcxproj'' ''tool/tool.csproj''"
    by code_simp+
  have retained: "{g m | m. m \<in> set xs \<and> P m} = set (map g (filter P xs))"
    for g :: "string list \<Rightarrow> string" and xs P
    by auto
  have keys: "Mapping.keys (ProjectGUIDs (fst (parseProjectReferences empty_sln mixed_doc))) =
     {''lib/app.vcxproj''}"
    using parseProjectReferences_retains [of empty_sln mixed_doc] e s1 s2 s3
    unfolding m retained by simp
  have none: "Mapping.keys (ProjectGUIDs (fst (parseProjectReferences empty_sln folder_doc))) = {}"
    using parseProjectReferences_retains [of empty_sln folder_doc] e s2
    unfolding f retained by simp
  from parseProjectReferences_retains [of empty_sln mixed_doc] keys
  have ok: "snd (parseProjectReferences empty_sln mixed_doc) = None" by simp
  from parseProjectReferences_retains [of empty_sln folder_doc] none
  have err: "snd (parseProjectReferences empty_sln folder_doc) = Some ErrNoProjectFiles" by simp
  from ok keys err show ?thesis by simp
qed

section \<open>Loading the projects\<close>

lemma load_projects_fields:
  "load_projects e sln ks = (sln', err) \<Longrightarrow>
     SolutionDir sln' = SolutionDir sln \<and> ProjectGUIDs sln' = ProjectGUIDs sln \<and>
     ConfigMappings sln' = ConfigMappings sln"
  by (induction ks arbitrary: sln) (auto split: sum.splits)

lemma load_projects_success:
  "load_projects e sln ks = (sln', None) \<Longrightarrow>
     map Inr (ProjectList sln') =
       map Inr (ProjectList sln) @ map (\<lambda>p. NewProject e (filepath_Join e (SolutionDir sln) p)) ks"
  by (induction ks arbitrary: sln) (auto split: sum.splits)

lemma load_projects_failure:
  "ks = ok @ p # rest \<Longrightarrow> \<forall>q \<in> set ok. \<not> isl (NewProject e (filepath_Join e (SolutionDir sln) q))
     \<Longrightarrow> NewProject e (filepath_Join e (SolutionDir sln) p) = Inl x
     \<Longrightarrow> snd (load_projects e sln ks) = Some x"
  by (induction ok arbitrary: sln ks) (auto split: sum.splits)

text \<open>
  Claim C8. Once the solution file is parsed, \<^verbatim>\<open>NewSln\<close> loads the projects in the
  order of its \<^verbatim>\<open>range\<close> over the reference table. If a project fails to load, all
  before it having loaded, \<^verbatim>\<open>NewSln\<close> returns that project's error at once; and
  whenever \<^verbatim>\<open>NewSln\<close> returns no error, its project list is the list of the loaded
  projects of all the references, in that order: no model is returned as constructed
  with the projects of only some of them. (The value that Go returns beside the error
  holds the projects loaded before the failure.)
\<close>

theorem NewSln_no_partial_model:
  assumes absolute: "filepath_Abs e path = (absPath, None)"
    and parsed: "parseSolutionFile e \<lparr>SolutionDir = filepath_Dir e absPath, ProjectList = [],
                   ProjectGUIDs = Mapping.empty, ConfigMappings = []\<rparr> path = (parsed, None)"
  shows "(\<forall>ok p rest x.
            keys (ProjectGUIDs parsed) = ok @ p # rest \<and>
            (\<forall>q \<in> set ok. \<not> isl (NewProject e (filepath_Join e (SolutionDir parsed) q))) \<and>
            NewProject e (filepath_Join e (SolutionDir parsed) p) = Inl x
            \<longrightarrow> snd (NewSln e keys path) = Some x) \<and>
         (snd (NewSln e keys path) = None \<longrightarrow>
            map Inr (ProjectList (fst (NewSln e keys path))) =
              map (\<lambda>p. NewProject e (filepath_Join e (SolutionDir parsed) p)) (keys (ProjectGUIDs parsed)))"
proof -
  have pl: "ProjectList parsed = []"
    using parsed
    by (auto simp: parseSolutionFile_def parseProjectReferences_def parseConfigurationMappings_def Let_def
        split: sum.splits prod.splits option.splits if_splits)
  have new: "NewSln e keys path = load_projects e parsed (keys (ProjectGUIDs parsed))"
    using absolute parsed by (simp add: NewSln_def)
  have one: "snd (NewSln e keys path) = Some x"
    if "keys (ProjectGUIDs parsed) = ok @ p # rest"
      and "\<forall>q \<in> set ok. \<not> isl (NewProject e (filepath_Join e (SolutionDir parsed) q))"
      and "NewProject e (filepath_Join e (SolutionDir parsed) p) = Inl x" for ok p rest x
    unfolding new using that by (rule load_projects_failure)
  have two: "map Inr (ProjectList (fst (NewSln e keys path))) =
              map (\<lambda>p. NewProject e (filepath_Join e (SolutionDir parsed) p)) (keys (ProjectGUIDs parsed))"
    if "snd (NewSln e keys path) = None"
  proof -
    from that new have "load_projects e parsed (keys (ProjectGUIDs parsed)) = (fst (NewSln e keys path), None)"
      by (metis prod.collapse)
    from load_projects_success [OF this] pl show ?thesis by simp
  qed
  from one two show ?thesis by blast
qed

theorem NewSln_no_partial_model_witness:
  "snd (NewSln failing_env (\<lambda>m. [''lib/app.vcxproj'']) ''/work/app.sln'') = Some (ErrOther ''load'') \<and>
   snd (NewSln example_env (\<lambda>m. [''lib/app.vcxproj'']) ''/work/app.sln'') = None \<and>
   ProjectList (fst (NewSln example_env (\<lambda>m. [''lib/app.vcxproj'']) ''/work/app.sln'')) =
     [example_project]"
proof -
  let ?init = "\<lparr>SolutionDir = filepath_Dir example_env ''/work/app.sln'', ProjectList = [],
                 ProjectGUIDs = Mapping.empty, ConfigMappings = []\<rparr>"
  let ?parsed = "fst (parseSolutionFile example_env ?init ''/work/app.sln'')"
  have abs_f: "filepath_Abs failing_env ''/work/app.sln'' = (''/work/app.sln'', None)"
    and abs_e: "filepath_Abs example_env ''/work/app.sln'' = (''/work/app.sln'', None)"
    by (simp_all add: failing_env_def example_env_def)
  have "snd (parseSolutionFile example_env ?init ''/work/app.sln'') = None" by code_simp
  then have parsed_e: "parseSolutionFile example_env ?init ''/work/app.sln'' = (?parsed, None)"
    by (metis prod.collapse)
  have same: "parseSolutionFile failing_env
       \<lparr>SolutionDir = filepath_Dir failing_env ''/work/app.sln'', ProjectList = [],
        ProjectGUIDs = Mapping.empty, ConfigMappings = []\<rparr> ''/work/app.sln'' =
     parseSolutionFile example_env ?init ''/work/app.sln''"
    by (simp add: failing_env_def parseSolutionFile_def)
  have parsed_f: "parseSolutionFile failing_env
       \<lparr>SolutionDir = filepath_Dir failing_env ''/work/app.sln'', ProjectList = [],
        ProjectGUIDs = Mapping.empty, ConfigMappings = []\<rparr> ''/work/app.sln'' = (?parsed, None)"
    using same parsed_e by simp
  have joined: "filepath_Join example_env (SolutionDir ?parsed) ''lib/app.vcxproj'' =
      ''/work/lib/app.vcxproj''"
    by code_simp
  have fails: "NewProject failing_env (filepath_Join failing_env (SolutionDir ?parsed) ''lib/app.vcxproj'') =
      Inl (ErrOther ''load'')"
    by (simp add: failing_env_def)
  have loads: "NewProject example_env (filepath_Join example_env (SolutionDir ?parsed) ''lib/app.vcxproj'') =
      Inr example_project"
    unfolding joined by (simp add: example_env_def)
  from NewSln_no_partial_model [OF abs_f parsed_f, of "\<lambda>m. [''lib/app.vcxproj'']",
      THEN conjunct1, rule_format, of "[]" "''lib/app.vcxproj''" "[]" "ErrOther ''load''"] fails
  have one: "snd (NewSln failing_env (\<lambda>m. [''lib/app.vcxproj'']) ''/work/app.sln'') =
      Some (ErrOther ''load'')"
    by simp
  have two: "snd (NewSln example_env (\<lambda>m. [''lib/app.vcxproj'']) ''/work/app.sln'') = None"
    by code_simp
  from NewSln_no_partial_model [OF abs_e parsed_e, of "\<lambda>m. [''lib/app.vcxproj'']",
      THEN conjunct2, rule_format] two loads
  have "map Inr (ProjectList (fst (NewSln example_env (\<lambda>m. [''lib/app.vcxproj'']) ''/work/app.sln''))) =
      [Inr example_project :: error + Project]"
    by simp
  then have three: "ProjectList (fst (NewSln example_env (\<lambda>m. [''lib/app.vcxproj'']) ''/work/app.sln'')) =
     [example_project]"
    by (simp add: map_eq_Cons_conv)
  from one two three show ?thesis by simp
qed

section \<open>Running the generator twice\<close>

text \<open>
  The generator reads the model only; what can differ between two runs is the order
  in which each call of \<^verbatim>\<open>GetProjectConfigByProject\<close> ranges over the reference
  table, and the loop of that function stops at the first registered path that joins
  to the project's path.
\<close>

lemma find_project_path_unique:
  assumes "\<forall>p \<in> set ks. \<forall>q \<in> set ks.
             filepath_Join e (SolutionDir sln) p = ProjectPath pro \<and>
             filepath_Join e (SolutionDir sln) q = ProjectPath pro \<longrightarrow> p = q"
    and "p \<in> set ks" and "filepath_Join e (SolutionDir sln) p = ProjectPath pro"
  shows "find_project_path e sln pro ks = p"
  using assms by (induction ks) (auto simp: Let_def)

lemma find_project_path_order:
  assumes "set ks = set ks'"
    and "\<forall>p \<in> set ks. \<forall>q \<in> set ks.
             filepath_Join e (SolutionDir sln) p = ProjectPath pro \<and>
             filepath_Join e (SolutionDir sln) q = ProjectPath pro \<longrightarrow> p = q"
  shows "find_project_path e sln pro ks = find_project_path e sln pro ks'"
proof (cases "\<exists>p \<in> set ks. filepath_Join e (SolutionDir sln) p = ProjectPath pro")
  case True
  then obtain p where p: "p \<in> set ks" "filepath_Join e (SolutionDir sln) p = ProjectPath pro" by blast
  have "find_project_path e sln pro ks = p"
    using assms(2) p by (rule find_project_path_unique)
  moreover have "find_project_path e sln pro ks' = p"
    using assms(2) p unfolding assms(1) by (rule find_project_path_unique)
  ultimately show ?thesis by simp
next
  case False
  then show ?thesis
    using find_project_path_none [of ks e sln pro] find_project_path_none [of ks' e sln pro] assms(1)
    by simp
qed

lemma project_loop_orders:
  assumes "\<And>i pro. pro \<in> set pros \<Longrightarrow>
             GetProjectConfigByProject e (o1 (i + n)) sln pro conf =
             GetProjectConfigByProject e (o2 (i + n)) sln pro conf"
  shows "project_loop e o1 sln conf n pros acc = project_loop e o2 sln conf n pros acc"
  using assms
proof (induction pros arbitrary: n acc)
  case Nil
  then show ?case by simp
next
  case (Cons pro pros)
  have h: "GetProjectConfigByProject e (o1 n) sln pro conf = GetProjectConfigByProject e (o2 n) sln pro conf"
    using Cons.prems [of pro 0] by simp
  have t: "project_loop e o1 sln conf (Suc n) pros acc' = project_loop e o2 sln conf (Suc n) pros acc'" for acc'
  proof (rule Cons.IH)
    fix i pro'
    assume "pro' \<in> set pros"
    then show "GetProjectConfigByProject e (o1 (i + Suc n)) sln pro' conf =
               GetProjectConfigByProject e (o2 (i + Suc n)) sln pro' conf"
      using Cons.prems [of pro' "Suc i"] by simp
  qed
  show ?case by (simp add: h t split: prod.splits option.splits)
qed

text \<open>
  Claim C6 as stated does not hold. The solution \<open>twin_doc\<close> registers the project
  file \<^verbatim>\<open>/work/app.vcxproj\<close> under the two paths \<^verbatim>\<open>app.vcxproj\<close> and
  \<^verbatim>\<open>./app.vcxproj\<close>, with identifiers mapped to different project configurations.
  Two runs of \<^verbatim>\<open>CompileCommandsJson\<close> over this one model, for the same requested
  configuration, that range over the table in the two possible orders give different
  commands.
\<close>

theorem CompileCommandsJson_order_counterexample:
  "range_order (ProjectGUIDs twin_sln) [''app.vcxproj'', ''./app.vcxproj''] \<and>
   range_order (ProjectGUIDs twin_sln) [''./app.vcxproj'', ''app.vcxproj''] \<and>
   CompileCommandsJson twin_env (\<lambda>i. [''app.vcxproj'', ''./app.vcxproj'']) twin_sln ''Debug'' =
     ([\<lparr>Dir = ''/work'', File = ''main.cpp'', Cmd = ''clang-cl.exe -DWIN32  -Iinc  -c main.cpp''\<rparr>,
       \<lparr>Dir = ''/work'', File = ''main.cpp'', Cmd = ''clang-cl.exe -DWIN32  -Iinc  -c main.cpp''\<rparr>],
      None) \<and>
   CompileCommandsJson twin_env (\<lambda>i. [''./app.vcxproj'', ''app.vcxproj'']) twin_sln ''Debug'' =
     ([\<lparr>Dir = ''/work'', File = ''main.cpp'', Cmd = ''clang-cl.exe -DWIN64  -Iinc  -c main.cpp''\<rparr>,
       \<lparr>Dir = ''/work'', File = ''main.cpp'', Cmd = ''clang-cl.exe -DWIN64  -Iinc  -c main.cpp''\<rparr>],
      None) \<and>
   CompileCommandsJson twin_env (\<lambda>i. [''app.vcxproj'', ''./app.vcxproj'']) twin_sln ''Debug'' \<noteq>
     CompileCommandsJson twin_env (\<lambda>i. [''./app.vcxproj'', ''app.vcxproj'']) twin_sln ''Debug''"
proof -
  have keys: "Mapping.keys (ProjectGUIDs twin_sln) = {''./app.vcxproj'', ''app.vcxproj''}"
    by (simp add: twin_sln_def)
  have o1: "range_order (ProjectGUIDs twin_sln) [''app.vcxproj'', ''./app.vcxproj'']"
    and o2: "range_order (ProjectGUIDs twin_sln) [''./app.vcxproj'', ''app.vcxproj'']"
    unfolding range_order_def keys by auto
  have r1: "CompileCommandsJson twin_env (\<lambda>i. [''app.vcxproj'', ''./app.vcxproj'']) twin_sln ''Debug'' =
     ([\<lparr>Dir = ''/work'', File = ''main.cpp'', Cmd = ''clang-cl.exe -DWIN32  -Iinc  -c main.cpp''\<rparr>,
       \<lparr>Dir = ''/work'', File = ''main.cpp'', Cmd = ''clang-cl.exe -DWIN32  -Iinc  -c main.cpp''\<rparr>],
      None)"
    by code_simp
  have r2: "CompileCommandsJson twin_env (\<lambda>i. [''./app.vcxproj'', ''app.vcxproj'']) twin_sln ''Debug'' =
     ([\<lparr>Dir = ''/work'', File = ''main.cpp'', Cmd = ''clang-cl.exe -DWIN64  -Iinc  -c main.cpp''\<rparr>,
       \<lparr>Dir = ''/work'', File = ''main.cpp'', Cmd = ''clang-cl.exe -DWIN64  -Iinc  -c main.cpp''\<rparr>],
      None)"
    by code_simp
  have "CompileCommandsJson twin_env (\<lambda>i. [''app.vcxproj'', ''./app.vcxproj'']) twin_sln ''Debug'' \<noteq>
     CompileCommandsJson twin_env (\<lambda>i. [''./app.vcxproj'', ''app.vcxproj'']) twin_sln ''Debug''"
    unfolding r1 r2 by simp
  with o1 o2 r1 r2 show ?thesis by simp
qed

text \<open>The model \<open>twin_sln\<close> is the one that \<^verbatim>\<open>NewSln\<close> constructs from \<open>twin_doc\<close>.\<close>

lemma twin_constructed:
  "snd (NewSln twin_env (\<lambda>m. [''app.vcxproj'', ''./app.vcxproj'']) ''/work/twin.sln'') = None \<and>
   SolutionDir (fst (NewSln twin_env (\<lambda>m. [''app.vcxproj'', ''./app.vcxproj'']) ''/work/twin.sln'')) =
     SolutionDir twin_sln \<and>
   ProjectGUIDs (fst (NewSln twin_env (\<lambda>m. [''app.vcxproj'', ''./app.vcxproj'']) ''/work/twin.sln'')) =
     ProjectGUIDs twin_sln \<and>
   ConfigMappings (fst (NewSln twin_env (\<lambda>m. [''app.vcxproj'', ''./app.vcxproj'']) ''/work/twin.sln'')) =
     ConfigMappings twin_sln \<and>
   map ProjectPath (ProjectList (fst (NewSln twin_env (\<lambda>m. [''app.vcxproj'', ''./app.vcxproj''])
     ''/work/twin.sln''))) = map ProjectPath (ProjectList twin_sln)"
  by code_simp

text \<open>
  Claim C6, amended. When, for every loaded project, at most one registered path
  joined to the solution directory is the project's path, two runs of
  \<^verbatim>\<open>CompileCommandsJson\<close> with the same requested configuration over the same model
  return the same entries, with the same command strings, in the same order, whatever
  the orders in which the runs range over the reference table.
\<close>

theorem CompileCommandsJson_order_independent:
  assumes orders: "\<forall>i. range_order (ProjectGUIDs sln) (o1 i) \<and> range_order (ProjectGUIDs sln) (o2 i)"
    and unique: "\<forall>pro \<in> set (ProjectList sln).
                   \<forall>p \<in> Mapping.keys (ProjectGUIDs sln). \<forall>q \<in> Mapping.keys (ProjectGUIDs sln).
                     filepath_Join e (SolutionDir sln) p = ProjectPath pro \<and>
                     filepath_Join e (SolutionDir sln) q = ProjectPath pro \<longrightarrow> p = q"
  shows "CompileCommandsJson e o1 sln conf = CompileCommandsJson e o2 sln conf"
  unfolding CompileCommandsJson_def
proof (rule project_loop_orders)
  fix i pro
  assume pro: "pro \<in> set (ProjectList sln)"
  from orders have s1: "set (o1 (i + 0)) = Mapping.keys (ProjectGUIDs sln)"
    and s2: "set (o2 (i + 0)) = Mapping.keys (ProjectGUIDs sln)"
    by (simp_all add: range_order_def)
  have "find_project_path e sln pro (o1 (i + 0)) = find_project_path e sln pro (o2 (i + 0))"
  proof (rule find_project_path_order)
    show "set (o1 (i + 0)) = set (o2 (i + 0))" using s1 s2 by simp
    show "\<forall>p \<in> set (o1 (i + 0)). \<forall>q \<in> set (o1 (i + 0)).
             filepath_Join e (SolutionDir sln) p = ProjectPath pro \<and>
             filepath_Join e (SolutionDir sln) q = ProjectPath pro \<longrightarrow> p = q"
      unfolding s1 using unique pro by blast
  qed
  then show "GetProjectConfigByProject e (o1 (i + 0)) sln pro conf =
             GetProjectConfigByProject e (o2 (i + 0)) sln pro conf"
    by (simp add: GetProjectConfigByProject_def)
qed

theorem CompileCommandsJson_order_independent_witness:
  "range_order (ProjectGUIDs pair_sln) [''app.vcxproj'', ''lib/app.vcxproj''] \<and>
   range_order (ProjectGUIDs pair_sln) [''lib/app.vcxproj'', ''app.vcxproj''] \<and>
   CompileCommandsJson example_env (\<lambda>i. [''app.vcxproj'', ''lib/app.vcxproj'']) pair_sln ''Debug|x64'' =
     CompileCommandsJson example_env (\<lambda>i. [''lib/app.vcxproj'', ''app.vcxproj'']) pair_sln ''Debug|x64''"
proof -
  have keys: "Mapping.keys (ProjectGUIDs pair_sln) = {''lib/app.vcxproj'', ''app.vcxproj''}"
    by (simp add: pair_sln_def)
  have o1: "range_order (ProjectGUIDs pair_sln) [''app.vcxproj'', ''lib/app.vcxproj'']"
    and o2: "range_order (ProjectGUIDs pair_sln) [''lib/app.vcxproj'', ''app.vcxproj'']"
    unfolding range_order_def keys by auto
  have orders: "\<forall>i::nat. range_order (ProjectGUIDs pair_sln) [''app.vcxproj'', ''lib/app.vcxproj''] \<and>
      range_order (ProjectGUIDs pair_sln) [''lib/app.vcxproj'', ''app.vcxproj'']"
    using o1 o2 by simp
  have j1: "filepath_Join example_env (SolutionDir pair_sln) ''app.vcxproj'' = ''/work/app.vcxproj''"
    and j2: "filepath_Join example_env (SolutionDir pair_sln) ''lib/app.vcxproj'' = ''/work/lib/app.vcxproj''"
    by code_simp+
  have unique: "\<forall>pro \<in> set (ProjectList pair_sln).
      \<forall>p \<in> Mapping.keys (ProjectGUIDs pair_sln). \<forall>q \<in> Mapping.keys (ProjectGUIDs pair_sln).
        filepath_Join example_env (SolutionDir pair_sln) p = ProjectPath pro \<and>
        filepath_Join example_env (SolutionDir pair_sln) q = ProjectPath pro \<longrightarrow> p = q"
  proof (intro ballI impI)
    fix pro p q
    assume p: "p \<in> Mapping.keys (ProjectGUIDs pair_sln)"
      and q: "q \<in> Mapping.keys (ProjectGUIDs pair_sln)"
      and "filepath_Join example_env (SolutionDir pair_sln) p = ProjectPath pro \<and>
           filepath_Join example_env (SolutionDir pair_sln) q = ProjectPath pro"
    then have "filepath_Join example_env (SolutionDir pair_sln) p =
               filepath_Join example_env (SolutionDir pair_sln) q"
      by simp
    with p q show "p = q" unfolding keys by (auto simp: j1 j2)
  qed
  from CompileCommandsJson_order_independent [OF orders unique, of "''Debug|x64''"] o1 o2
  show ?thesis by simp
qed

section \<open>The command strings\<close>

text \<open>
  \<^verbatim>\<open>preappend\<close> puts the flag before every piece and a space after every piece, the
  last one too.
\<close>

lemma preappend_loop_concat:
  "preappend_loop vs app out = out @ concat (map (\<lambda>v. app @ v @ '' '') vs)"
  by (induction vs arbitrary: out) auto

lemma preappend_concat:
  "preappend s app = concat (map (\<lambda>v. app @ v @ '' '') (Split s '';''))"
  by (simp add: preappend_def preappend_loop_concat)

lemma file_loop_entries:
  "file_loop e sln pro pc fs acc = (cmds, err) \<Longrightarrow> set fs \<subseteq> set (FindSourceFiles pro) \<Longrightarrow>
     \<exists>new. cmds = acc @ new \<and> (\<forall>c \<in> set new. composed_entry e sln pro pc c) \<and>
           (err = None \<longrightarrow> map File new = fs)"
proof (induction fs arbitrary: acc)
  case Nil
  then show ?case by simp
next
  case (Cons f fs)
  show ?case
  proof (cases "FindConfig pro pc")
    case (Inl x)
    with Cons.prems(1) have "cmds = acc" "err = Some x" by simp_all
    then show ?thesis by simp
  next
    case (Inr p)
    obtain inc def where p: "p = (inc, def)" by (cases p)
    define c where "c = \<lparr>Dir = ProjectDir pro, File = f,
               Cmd = ''clang-cl.exe '' @ preappend (RemoveBadDefinition e def) ''-D'' @ '' '' @
                     preappend (RemoveBadInclude e (Replace inc ''$(SolutionDir)'' (SolutionDir sln))) ''-I'' @
                     '' -c '' @ f\<rparr>"
    have "file_loop e sln pro pc (f # fs) acc = file_loop e sln pro pc fs (acc @ [c])"
      unfolding c_def file_loop.simps Inr p by (simp only: sum.case prod.case Let_def)
    with Cons.prems(1) have run: "file_loop e sln pro pc fs (acc @ [c]) = (cmds, err)" by simp
    have sub: "set fs \<subseteq> set (FindSourceFiles pro)" and f: "f \<in> set (FindSourceFiles pro)"
      using Cons.prems(2) by simp_all
    from Cons.IH [OF run sub] obtain new where
      new: "cmds = (acc @ [c]) @ new" "\<forall>c \<in> set new. composed_entry e sln pro pc c"
        "err = None \<longrightarrow> map File new = fs"
      by (elim exE conjE)
    have fields: "File c = f" "Dir c = ProjectDir pro"
      "Cmd c = ''clang-cl.exe '' @
          concat (map (\<lambda>d. ''-D'' @ d @ '' '') (Split (RemoveBadDefinition e def) '';'')) @
          '' '' @
          concat (map (\<lambda>i. ''-I'' @ i @ '' '')
                    (Split (RemoveBadInclude e (Replace inc ''$(SolutionDir)'' (SolutionDir sln))) '';'')) @
          '' -c '' @ File c"
      unfolding c_def by (simp_all only: CompileCommand.simps preappend_concat)
    have ce: "composed_entry e sln pro pc c"
      unfolding composed_entry_def using fields f Inr p
      by (intro exI [of _ inc] exI [of _ def] conjI) simp_all
    have "cmds = acc @ (c # new)" using new(1) by simp
    moreover have "\<forall>x \<in> set (c # new). composed_entry e sln pro pc x" using ce new(2) by simp
    moreover have "err = None \<longrightarrow> map File (c # new) = f # fs" using new(3) fields(1) by simp
    ultimately show ?thesis by (intro exI [of _ "c # new"] conjI)
  qed
qed

lemma project_loop_entries:
  "project_loop e orders sln conf n pros acc = (cmds, err) \<Longrightarrow>
     \<exists>new. cmds = acc @ new \<and>
           (\<forall>c \<in> set new. \<exists>i < length pros.
               composed_entry e sln (pros ! i) (resolved e (orders (n + i)) sln (pros ! i) conf) c) \<and>
           (err = None \<longrightarrow> map File new = concat (map FindSourceFiles pros))"
proof (induction pros arbitrary: n acc)
  case Nil
  then show ?case by simp
next
  case (Cons pro pros)
  let ?pc = "resolved e (orders n) sln pro conf"
  obtain mid ferr where f: "file_loop e sln pro ?pc (FindSourceFiles pro) acc = (mid, ferr)"
    by (cases "file_loop e sln pro ?pc (FindSourceFiles pro) acc")
  from file_loop_entries [OF f] obtain new1 where
    new1: "mid = acc @ new1" "\<forall>c \<in> set new1. composed_entry e sln pro ?pc c"
      "ferr = None \<longrightarrow> map File new1 = FindSourceFiles pro"
    by auto
  have first: "\<forall>c \<in> set new1. \<exists>i < length (pro # pros).
      composed_entry e sln ((pro # pros) ! i) (resolved e (orders (n + i)) sln ((pro # pros) ! i) conf) c"
    using new1(2) by (intro ballI exI [of _ 0]) simp
  show ?case
  proof (cases ferr)
    case (Some x)
    with Cons.prems f have "cmds = mid" "err = Some x"
      by (simp_all add: resolved_def)
    with new1(1) first show ?thesis by (intro exI [of _ new1]) simp
  next
    case None
    with Cons.prems f have "project_loop e orders sln conf (Suc n) pros mid = (cmds, err)"
      by (simp add: resolved_def)
    from Cons.IH [OF this] obtain new2 where
      new2: "cmds = mid @ new2"
        "\<forall>c \<in> set new2. \<exists>i < length pros.
            composed_entry e sln (pros ! i) (resolved e (orders (Suc n + i)) sln (pros ! i) conf) c"
        "err = None \<longrightarrow> map File new2 = concat (map FindSourceFiles pros)"
      by auto
    have second: "\<forall>c \<in> set new2. \<exists>i < length (pro # pros).
      composed_entry e sln ((pro # pros) ! i) (resolved e (orders (n + i)) sln ((pro # pros) ! i) conf) c"
    proof
      fix c assume "c \<in> set new2"
      with new2(2) obtain i where "i < length pros"
        "composed_entry e sln (pros ! i) (resolved e (orders (Suc n + i)) sln (pros ! i) conf) c"
        by blast
      then show "\<exists>i < length (pro # pros).
        composed_entry e sln ((pro # pros) ! i) (resolved e (orders (n + i)) sln ((pro # pros) ! i) conf) c"
        by (intro exI [of _ "Suc i"]) simp
    qed
    have "cmds = acc @ (new1 @ new2)" using new1(1) new2(1) by simp
    moreover have "\<forall>c \<in> set (new1 @ new2). \<exists>i < length (pro # pros).
               composed_entry e sln ((pro # pros) ! i) (resolved e (orders (n + i)) sln ((pro # pros) ! i) conf) c"
      using first second by (simp add: ball_Un)
    moreover have "err = None \<longrightarrow> map File (new1 @ new2) = concat (map FindSourceFiles (pro # pros))"
      using new1(3) new2(3) None by simp
    ultimately show ?thesis by (intro exI [of _ "new1 @ new2"] conjI)
  qed
qed


text \<open>What the generator returns for the example.\<close>

lemma example_command:
  "CompileCommandsJson example_env (\<lambda>i. [''lib/app.vcxproj'']) example_sln ''Debug|x64'' =
     ([\<lparr>Dir = ''lib'', File = ''main.cpp'',
        Cmd = ''clang-cl.exe -DFOO -DBAR  -Iinc1 -Iinc2  -c main.cpp''\<rparr>], None)"
  by code_simp

text \<open>
  The two spaces before \<^verbatim>\<open>-c\<close> stand in every command, whatever the project, the
  configuration and the sanitizers are.
\<close>

lemma Split_not_Nil: "Split s sep \<noteq> []"
proof (induction s sep rule: Split.induct)
  case (1 s sep)
  show ?case
    by (subst Split.simps) (simp split: list.splits)
qed

lemma flags_end_with_space:
  assumes "vs \<noteq> []"
  shows "\<exists>body. concat (map (\<lambda>v. app @ v @ '' '') vs) = body @ '' ''"
proof -
  from assms obtain ws w where "vs = ws @ [w]" by (metis append_butlast_last_id)
  then have "concat (map (\<lambda>v. app @ v @ '' '') vs) =
      (concat (map (\<lambda>v. app @ v @ '' '') ws) @ app @ w) @ '' ''"
    by simp
  then show ?thesis by blast
qed

lemma command_has_double_space:
  assumes "c \<in> set (fst (CompileCommandsJson e orders sln conf))"
  shows "\<exists>front. Cmd c = front @ ''  -c '' @ File c"
proof -
  obtain cmds err where run: "CompileCommandsJson e orders sln conf = (cmds, err)"
    by (cases "CompileCommandsJson e orders sln conf")
  then have "project_loop e orders sln conf 0 (ProjectList sln) [] = (cmds, err)"
    by (simp add: CompileCommandsJson_def)
  from project_loop_entries [OF this] obtain new where
    new: "cmds = [] @ new"
      "\<forall>c \<in> set new. \<exists>i < length (ProjectList sln).
          composed_entry e sln (ProjectList sln ! i)
            (resolved e (orders (0 + i)) sln (ProjectList sln ! i) conf) c"
    by (elim exE conjE)
  from assms run new(1) have "c \<in> set new" by simp
  with new(2) have "\<exists>i < length (ProjectList sln).
          composed_entry e sln (ProjectList sln ! i)
            (resolved e (orders (0 + i)) sln (ProjectList sln ! i) conf) c"
    by (rule bspec)
  then obtain i where
    "composed_entry e sln (ProjectList sln ! i) (resolved e (orders (0 + i)) sln (ProjectList sln ! i) conf) c"
    by (elim exE conjE)
  then obtain inc def where cmd: "Cmd c =
          ''clang-cl.exe '' @
          concat (map (\<lambda>d. ''-D'' @ d @ '' '') (Split (RemoveBadDefinition e def) '';'')) @
          '' '' @
          concat (map (\<lambda>i. ''-I'' @ i @ '' '')
                    (Split (RemoveBadInclude e (Replace inc ''$(SolutionDir)'' (SolutionDir sln))) '';'')) @
          '' -c '' @ File c"
    unfolding composed_entry_def by (elim exE conjE)
  define defs where
    "defs = concat (map (\<lambda>d. ''-D'' @ d @ '' '') (Split (RemoveBadDefinition e def) '';''))"
  define incs where
    "incs = Split (RemoveBadInclude e (Replace inc ''$(SolutionDir)'' (SolutionDir sln))) '';''"
  have "incs \<noteq> []" unfolding incs_def by (rule Split_not_Nil)
  from flags_end_with_space [OF this, of "''-I''"] obtain body where
    body: "concat (map (\<lambda>i. ''-I'' @ i @ '' '') incs) = body @ '' ''"
    by (elim exE)
  from cmd have "Cmd c = ''clang-cl.exe '' @ defs @ '' '' @
      concat (map (\<lambda>i. ''-I'' @ i @ '' '') incs) @ '' -c '' @ File c"
    unfolding defs_def incs_def .
  then have "Cmd c = ''clang-cl.exe '' @ defs @ '' '' @ (body @ '' '') @ '' -c '' @ File c"
    unfolding body .
  then have "Cmd c = (''clang-cl.exe '' @ defs @ '' '' @ body) @ ''  -c '' @ File c"
    by simp
  then show ?thesis by (intro exI [of _ "''clang-cl.exe '' @ defs @ '' '' @ body"])
qed



text \<open>
  Two projects that both enumerate a file \<^verbatim>\<open>main.cpp\<close>: each entry carries the
  directory and the lists of its own project.
\<close>

lemma pair_commands:
  "CompileCommandsJson example_env (\<lambda>i. [''app.vcxproj'', ''lib/app.vcxproj'']) pair_sln ''Debug|x64'' =
     ([\<lparr>Dir = ''/work'', File = ''main.cpp'',
        Cmd = ''clang-cl.exe -DWIN32  -Iinc  -c main.cpp''\<rparr>,
       \<lparr>Dir = ''lib'', File = ''main.cpp'',
        Cmd = ''clang-cl.exe -DFOO -DBAR  -Iinc1 -Iinc2  -c main.cpp''\<rparr>], None)"
  by code_simp



section \<open>Constructed models\<close>

text \<open>
  Every model that \<^verbatim>\<open>NewSln\<close> returns has at most one mapping row per key and no
  empty registered path: the conditions under which the statements about the two
  queries were made.
\<close>

lemma parseProjectReferences_nonempty_paths:
  assumes "[] \<notin> Mapping.keys (ProjectGUIDs sln)"
  shows "[] \<notin> Mapping.keys (ProjectGUIDs (fst (parseProjectReferences sln content)))"
proof -
  have "[] \<noteq> Replace p [CHR 0x5C] ''/''" if "HasSuffix p ''.vcxproj''" for p
  proof -
    from that have "p \<noteq> []" by (auto simp: HasSuffix_def)
    then show ?thesis by (simp add: Replace_char)
  qed
  with assms show ?thesis
    by (auto simp: parseProjectReferences_def Let_def reference_loop_keys)
qed

lemma parseSolutionFile_constructed:
  assumes "distinct (map mapping_key (ConfigMappings sln))"
    and "[] \<notin> Mapping.keys (ProjectGUIDs sln)"
  shows "distinct (map mapping_key (ConfigMappings (fst (parseSolutionFile e sln path)))) \<and>
         [] \<notin> Mapping.keys (ProjectGUIDs (fst (parseSolutionFile e sln path)))"
proof (cases "ReadFile e path")
  case (Inl x)
  with assms show ?thesis by (simp add: parseSolutionFile_def)
next
  case (Inr content)
  obtain s1 e1 where pp: "parseProjectReferences sln content = (s1, e1)"
    by (cases "parseProjectReferences sln content")
  then have s1: "s1 = fst (parseProjectReferences sln content)" by simp
  have cm: "ConfigMappings s1 = ConfigMappings sln"
    unfolding s1 by (simp add: parseProjectReferences_def Let_def)
  have k1: "[] \<notin> Mapping.keys (ProjectGUIDs s1)"
    unfolding s1 using assms(2) by (rule parseProjectReferences_nonempty_paths)
  have d1: "distinct (map mapping_key (ConfigMappings s1))"
    using assms(1) cm by simp
  show ?thesis
  proof (cases e1)
    case (Some x)
    then have "parseSolutionFile e sln path = (s1, Some x)"
      using Inr pp by (simp add: parseSolutionFile_def)
    with k1 d1 show ?thesis by simp
  next
    case None
    then have eq: "parseSolutionFile e sln path = parseConfigurationMappings s1 content"
      using Inr pp by (simp add: parseSolutionFile_def)
    have "ProjectGUIDs (fst (parseConfigurationMappings s1 content)) = ProjectGUIDs s1"
      by (simp add: parseConfigurationMappings_def Let_def)
    with k1 parseConfigurationMappings_distinct [OF d1, of content] show ?thesis
      unfolding eq by simp
  qed
qed

lemma NewSln_constructed:
  assumes "NewSln e keys path = (sln, err)"
  shows "distinct (map mapping_key (ConfigMappings sln)) \<and> [] \<notin> Mapping.keys (ProjectGUIDs sln)"
proof -
  obtain absPath aerr where a: "filepath_Abs e path = (absPath, aerr)"
    by (cases "filepath_Abs e path")
  let ?init = "\<lparr>SolutionDir = filepath_Dir e absPath, ProjectList = [],
                 ProjectGUIDs = Mapping.empty, ConfigMappings = []\<rparr>"
  let ?parsed = "fst (parseSolutionFile e ?init path)"
  have p: "distinct (map mapping_key (ConfigMappings ?parsed)) \<and>
           [] \<notin> Mapping.keys (ProjectGUIDs ?parsed)"
    by (rule parseSolutionFile_constructed) simp_all
  obtain parsed perr where pr: "parseSolutionFile e ?init path = (parsed, perr)"
    by (cases "parseSolutionFile e ?init path")
  with p have q: "distinct (map mapping_key (ConfigMappings parsed)) \<and>
           [] \<notin> Mapping.keys (ProjectGUIDs parsed)"
    by simp
  show ?thesis
  proof (cases aerr)
    case (Some x)
    with a assms have "sln = ?init" by (simp add: NewSln_def)
    then show ?thesis by simp
  next
    case None
    show ?thesis
    proof (cases perr)
      case (Some x)
      with a None assms pr have "sln = parsed" by (simp add: NewSln_def)
      with q show ?thesis by simp
    next
      case inner: None
      with a None assms pr have "load_projects e parsed (keys (ProjectGUIDs parsed)) = (sln, err)"
        by (simp add: NewSln_def)
      from load_projects_fields [OF this] q show ?thesis by simp
    qed
  qed
qed

text \<open>The model \<open>example_sln\<close> is the one that \<^verbatim>\<open>NewSln\<close> constructs from \<open>example_doc\<close>.\<close>

lemma example_constructed:
  "snd (NewSln example_env (\<lambda>m. [''lib/app.vcxproj'']) ''/work/app.sln'') = None \<and>
   SolutionDir (fst (NewSln example_env (\<lambda>m. [''lib/app.vcxproj'']) ''/work/app.sln'')) =
     SolutionDir example_sln \<and>
   ProjectGUIDs (fst (NewSln example_env (\<lambda>m. [''lib/app.vcxproj'']) ''/work/app.sln'')) =
     ProjectGUIDs example_sln \<and>
   ConfigMappings (fst (NewSln example_env (\<lambda>m. [''lib/app.vcxproj'']) ''/work/app.sln'')) =
     ConfigMappings example_sln \<and>
   map ProjectPath (ProjectList (fst (NewSln example_env (\<lambda>m. [''lib/app.vcxproj''])
     ''/work/app.sln''))) = map ProjectPath (ProjectList example_sln)"
  by code_simp

end
